theory Spec2Isabelle
  imports Complex_Main "HOL-Library.Sublist" "HOL-Library.AList"
begin

section \<open>Python values and errors\<close>

text \<open>
  The program reads a JSON file and works on what \<open>json.load\<close> returns. A JSON value is
  modelled by \<open>json\<close>; a JSON object is an association list in insertion order whose
  first binding of a key is the dictionary's binding. A number is kept as an integer: the
  program only ever asks whether a number is truthy. A text is a list of the characters
  U+0000 to U+00FF (Latin-1), each \<open>char\<close> standing for the code point of its number;
  \<open>strip\<close>, \<open>lower\<close> and \<open>casefold\<close> are Python's on these characters.
\<close>

datatype py_error = AttributeError | ValueError | ZeroDivisionError

datatype json =
    JNull
  | JBool bool
  | JNum int
  | JStr string
  | JArr "json list"
  | JObj "(string \<times> json) list"

text \<open>Python's truth value of a loaded JSON value.\<close>

fun truthy :: "json \<Rightarrow> bool" where
  "truthy JNull = False"
| "truthy (JBool b) = b"
| "truthy (JNum n) = (n \<noteq> 0)"
| "truthy (JStr s) = (s \<noteq> [])"
| "truthy (JArr xs) = (xs \<noteq> [])"
| "truthy (JObj kvs) = (kvs \<noteq> [])"

text \<open>\<open>x.get(k, d)\<close>: only a dict has the method.\<close>

fun py_get :: "json \<Rightarrow> string \<Rightarrow> json \<Rightarrow> py_error + json" where
  "py_get (JObj kvs) k d = Inr (case map_of kvs k of None \<Rightarrow> d | Some v \<Rightarrow> v)"
| "py_get _ k d = Inl AttributeError"

text \<open>\<open>x.values()\<close>: the values of a dict in insertion order, one per key.\<close>

fun py_values :: "json \<Rightarrow> py_error + json list" where
  "py_values (JObj kvs) = Inr (map snd (AList.clearjunk kvs))"
| "py_values _ = Inl AttributeError"

subsection \<open>Strings\<close>

text \<open>
  \<open>str.isspace\<close> on one character: tab to carriage return, the four separators U+001C
  to U+001F, the space, the next-line control U+0085 and the no-break space U+00A0.
\<close>

definition isspace :: "char \<Rightarrow> bool" where
  "isspace c = ((of_char c :: nat) \<in> set [9, 10, 11, 12, 13, 28, 29, 30, 31, 32, 133, 160])"

text \<open>\<open>s.strip()\<close>: the whitespace at both ends goes.\<close>

definition strip :: "string \<Rightarrow> string" where
  "strip s = rev (dropWhile isspace (rev (dropWhile isspace s)))"

text \<open>
  \<open>str.lower\<close> on one character: the letters A to Z and the capital letters U+00C0 to
  U+00DE (the multiplication sign U+00D7 is no letter) move up by 32.
\<close>

definition lower_char :: "char \<Rightarrow> char" where
  "lower_char c =
     (let n = (of_char c :: nat)
      in if (65 \<le> n \<and> n \<le> 90) \<or> (192 \<le> n \<and> n \<le> 222 \<and> n \<noteq> 215)
         then char_of (n + 32) else c)"

definition lower :: "string \<Rightarrow> string" where
  "lower s = map lower_char s"

text \<open>
  \<open>str.casefold\<close> gives code points: it is \<open>lower\<close> but for the sharp s U+00DF, folded
  to \<open>ss\<close>, and the micro sign U+00B5, folded to the Greek letter U+03BC, which is no
  Latin-1 character.
\<close>

definition casefold_char :: "char \<Rightarrow> nat list" where
  "casefold_char c =
     (if (of_char c :: nat) = 223 then [115, 115]
      else if (of_char c :: nat) = 181 then [956]
      else [of_char (lower_char c)])"

definition casefold :: "string \<Rightarrow> nat list" where
  "casefold s = concat (map casefold_char s)"

text \<open>\<open>pat in s\<close> for two strings.\<close>

fun py_in :: "string \<Rightarrow> string \<Rightarrow> bool" where
  "py_in pat [] = (pat = [])"
| "py_in pat (c # cs) = (prefix pat (c # cs) \<or> py_in pat cs)"

section \<open>The UK variant set\<close>

text \<open>
  \<open>load_UK_variants\<close> (source lines 14 to 22), given the lines of the variant file:
  strip every line, skip the lines that are empty after stripping, case-fold the rest
  into a set.
\<close>

definition load_UK_variants :: "string list \<Rightarrow> nat list set" where
  "load_UK_variants f =
     (let variations_on_uk = map strip (filter (\<lambda>line. strip line \<noteq> []) f)
      in set (map casefold variations_on_uk))"

text \<open>
  The test \<open>x and x.strip().casefold() in uk_variants\<close> of source lines 83, 86 and 145,
  as a condition: a falsy \<open>x\<close> fails it without being stripped, a truthy value that is
  not a string has no \<open>strip\<close>.
\<close>

definition in_uk :: "nat list set \<Rightarrow> json \<Rightarrow> py_error + bool" where
  "in_uk uk_variants x =
     (if \<not> truthy x then Inr False
      else case x of
             JStr s \<Rightarrow> Inr (casefold (strip s) \<in> uk_variants)
           | _ \<Rightarrow> Inl AttributeError)"


section \<open>The sampled companies\<close>

text \<open>
  \<open>sampled_companies.values()\<close> is a list of company entries, in the dictionary's order.
  Of an entry the program reads \<open>info.get('directors', [])\<close>, a list of officers (any
  JSON values), and \<open>info.get('company_data', {})\<close>, whose fields it reads through
  \<open>str(data.get(key, ''))\<close> only: \<open>company_data\<close> holds, for every key present, the text
  \<open>str\<close> gives for its value (a JSON string is its own text).
\<close>

record company =
  directors :: "json list"
  company_data :: "(string \<times> string) list"

definition data_get :: "(string \<times> string) list \<Rightarrow> string \<Rightarrow> string" where
  "data_get data k = (case map_of data k of None \<Rightarrow> [] | Some v \<Rightarrow> v)"

text \<open>A \<open>for\<close> loop without \<open>break\<close> over a list, threading the state; a raise ends it.\<close>

fun for_loop :: "('a \<Rightarrow> 's \<Rightarrow> py_error + 's) \<Rightarrow> 'a list \<Rightarrow> 's \<Rightarrow> py_error + 's" where
  "for_loop body [] st = Inr st"
| "for_loop body (x # xs) st =
     (case body x st of Inl e \<Rightarrow> Inl e | Inr st' \<Rightarrow> for_loop body xs st')"

text \<open>
  \<open>officer.get('country_of_residence') or officer.get('residence_country')\<close>
  (source lines 52, 79 and 141): the second lookup runs only when the first is falsy.
\<close>

definition resolve_country :: "json \<Rightarrow> py_error + json" where
  "resolve_country officer =
     (case py_get officer ''country_of_residence'' JNull of
        Inl e \<Rightarrow> Inl e
      | Inr a \<Rightarrow> if truthy a then Inr a else py_get officer ''residence_country'' JNull)"

text \<open>\<open>officer.get('address', {}).get('country')\<close> (source lines 53, 80 and 142).\<close>

definition address_country_of :: "json \<Rightarrow> py_error + json" where
  "address_country_of officer =
     (case py_get officer ''address'' (JObj []) of
        Inl e \<Rightarrow> Inl e
      | Inr a \<Rightarrow> py_get a ''country'' JNull)"

text \<open>
  The director record of the data model: a dictionary whose residence fields are absent,
  null or strings, and whose address, when present, is a dictionary with a country that
  is absent, null or a string.
\<close>

definition opt_str :: "json option \<Rightarrow> bool" where
  "opt_str v =
     (case v of None \<Rightarrow> True | Some JNull \<Rightarrow> True | Some (JStr s) \<Rightarrow> True | Some _ \<Rightarrow> False)"

definition director_record :: "json \<Rightarrow> bool" where
  "director_record officer =
     (case officer of
        JObj kvs \<Rightarrow>
          opt_str (map_of kvs ''country_of_residence'') \<and>
          opt_str (map_of kvs ''residence_country'') \<and>
          (case map_of kvs ''address'' of
             None \<Rightarrow> True
           | Some (JObj a) \<Rightarrow> opt_str (map_of a ''country'')
           | Some _ \<Rightarrow> False)
      | _ \<Rightarrow> False)"

definition company_records :: "company list \<Rightarrow> bool" where
  "company_records sampled_companies =
     list_all (\<lambda>info. list_all director_record (directors info)) sampled_companies"

subsection \<open>\<open>extract_director_countries\<close> (source lines 43 to 63)\<close>

text \<open>\<open>if x: countries.add(x.strip())\<close>\<close>

definition add_country :: "json \<Rightarrow> string set \<Rightarrow> py_error + string set" where
  "add_country x countries =
     (if \<not> truthy x then Inr countries
      else case x of
             JStr s \<Rightarrow> Inr (insert (strip s) countries)
           | _ \<Rightarrow> Inl AttributeError)"

definition extract_officer :: "json \<Rightarrow> string set \<Rightarrow> py_error + string set" where
  "extract_officer officer countries =
     (case resolve_country officer of
        Inl e \<Rightarrow> Inl e
      | Inr country \<Rightarrow>
          (case address_country_of officer of
             Inl e \<Rightarrow> Inl e
           | Inr address_country \<Rightarrow>
               (case add_country country countries of
                  Inl e \<Rightarrow> Inl e
                | Inr countries' \<Rightarrow> add_country address_country countries')))"

definition extract_director_countries :: "company list \<Rightarrow> py_error + string set" where
  "extract_director_countries sampled_companies =
     for_loop (\<lambda>info. for_loop extract_officer (directors info)) sampled_companies {}"

subsection \<open>\<open>count_companies_by_uk_director_status\<close> (source lines 66 to 100)\<close>

text \<open>
  The \<open>counts\<close> dictionary. The key \<open>total_companies\<close> is set after the loop (line 99);
  until then the field is 0 and nothing reads it.
\<close>

record counts =
  with_uk :: nat
  without_uk :: nat
  questionable_residence :: nat
  total_directors :: nat
  total_companies :: nat

text \<open>The body of the loop over a company's directors (lines 77 to 91), on \<open>(has_uk, counts)\<close>.\<close>

definition count_director :: "nat list set \<Rightarrow> json \<Rightarrow> bool \<times> counts \<Rightarrow> py_error + bool \<times> counts" where
  "count_director uk_variants officer st =
     (case st of (has_uk, c0) \<Rightarrow>
        let c = c0\<lparr>total_directors := total_directors c0 + 1\<rparr> in
        case resolve_country officer of
          Inl e \<Rightarrow> Inl e
        | Inr country \<Rightarrow>
            (case address_country_of officer of
               Inl e \<Rightarrow> Inl e
             | Inr address_country \<Rightarrow>
                 (case in_uk uk_variants country of
                    Inl e \<Rightarrow> Inl e
                  | Inr res_uk \<Rightarrow>
                      if res_uk then
                        (case in_uk uk_variants address_country of
                           Inl e \<Rightarrow> Inl e
                         | Inr addr_uk \<Rightarrow>
                             if addr_uk then Inr (True, c)
                             else Inr (has_uk,
                                    c\<lparr>questionable_residence := questionable_residence c + 1\<rparr>))
                      else Inr (has_uk, c))))"

text \<open>The body of the loop over the companies (lines 73 to 96).\<close>

definition count_company :: "nat list set \<Rightarrow> company \<Rightarrow> counts \<Rightarrow> py_error + counts" where
  "count_company uk_variants info c =
     (case for_loop (count_director uk_variants) (directors info) (False, c) of
        Inl e \<Rightarrow> Inl e
      | Inr (has_uk, c') \<Rightarrow>
          if has_uk then Inr (c'\<lparr>with_uk := with_uk c' + 1\<rparr>)
          else Inr (c'\<lparr>without_uk := without_uk c' + 1\<rparr>))"

definition counts0 :: counts where
  "counts0 = \<lparr>with_uk = 0, without_uk = 0, questionable_residence = 0,
              total_directors = 0, total_companies = 0\<rparr>"

definition count_companies_by_uk_director_status ::
    "company list \<Rightarrow> nat list set \<Rightarrow> py_error + counts" where
  "count_companies_by_uk_director_status sampled_companies uk_variants =
     (case for_loop (count_company uk_variants) sampled_companies counts0 of
        Inl e \<Rightarrow> Inl e
      | Inr c \<Rightarrow> Inr (c\<lparr>total_companies := with_uk c + without_uk c\<rparr>))"

section \<open>Dates\<close>

text \<open>
  A date is (year, month, day); Python compares dates in that order.
  \<open>datetime.strptime(s, '%d/%m/%Y')\<close> matches the whole of \<open>s\<close> against
  \<open>(3[0-1]|[1-2]\d|0[1-9]|[1-9]| [1-9])/(1[0-2]|0[1-9]|[1-9])/(\d\d\d\d)\<close> and then builds
  the date, which fails for a day the month does not have and for the year 0. None of the
  three groups can match a slash, so the match is the split of \<open>s\<close> at its slashes into
  exactly three parts, each in the language of its group.
\<close>

type_synonym date = "nat \<times> nat \<times> nat"

definition date_less :: "date \<Rightarrow> date \<Rightarrow> bool" where
  "date_less a b =
     (case a of (y1, m1, d1) \<Rightarrow> case b of (y2, m2, d2) \<Rightarrow>
        y1 < y2 \<or> (y1 = y2 \<and> (m1 < m2 \<or> (m1 = m2 \<and> d1 < d2))))"

definition is_digit :: "char \<Rightarrow> bool" where
  "is_digit c = ((48::nat) \<le> of_char c \<and> of_char c \<le> (57::nat))"

definition digit_val :: "char \<Rightarrow> nat" where
  "digit_val c = of_char c - 48"

definition nonzero_digit :: "char \<Rightarrow> bool" where
  "nonzero_digit c = (is_digit c \<and> c \<noteq> CHR ''0'')"

fun split_on :: "char \<Rightarrow> string \<Rightarrow> string list" where
  "split_on sep [] = [[]]"
| "split_on sep (c # cs) =
     (if c = sep then [] # split_on sep cs
      else case split_on sep cs of
             [] \<Rightarrow> [[c]]
           | part # parts \<Rightarrow> (c # part) # parts)"

fun parse_day :: "string \<Rightarrow> nat option" where
  "parse_day [a] = (if nonzero_digit a then Some (digit_val a) else None)"
| "parse_day [a, b] =
     (if a = CHR ''3'' \<and> (b = CHR ''0'' \<or> b = CHR ''1'') then Some (30 + digit_val b)
      else if (a = CHR ''1'' \<or> a = CHR ''2'') \<and> is_digit b
        then Some (10 * digit_val a + digit_val b)
      else if a = CHR ''0'' \<and> nonzero_digit b then Some (digit_val b)
      else if a = CHR '' '' \<and> nonzero_digit b then Some (digit_val b)
      else None)"
| "parse_day _ = None"

fun parse_month :: "string \<Rightarrow> nat option" where
  "parse_month [a] = (if nonzero_digit a then Some (digit_val a) else None)"
| "parse_month [a, b] =
     (if a = CHR ''1'' \<and> (b = CHR ''0'' \<or> b = CHR ''1'' \<or> b = CHR ''2'')
        then Some (10 + digit_val b)
      else if a = CHR ''0'' \<and> nonzero_digit b then Some (digit_val b)
      else None)"
| "parse_month _ = None"

fun parse_year :: "string \<Rightarrow> nat option" where
  "parse_year [a, b, c, d] =
     (if is_digit a \<and> is_digit b \<and> is_digit c \<and> is_digit d
      then Some (1000 * digit_val a + 100 * digit_val b + 10 * digit_val c + digit_val d)
      else None)"
| "parse_year _ = None"

definition is_leap :: "nat \<Rightarrow> bool" where
  "is_leap y = (y mod 4 = 0 \<and> (y mod 100 \<noteq> 0 \<or> y mod 400 = 0))"

definition days_in_month :: "nat \<Rightarrow> nat \<Rightarrow> nat" where
  "days_in_month y m =
     (if m = 2 then (if is_leap y then 29 else 28)
      else if m = 4 \<or> m = 6 \<or> m = 9 \<or> m = 11 then 30 else 31)"

definition valid_date :: "date \<Rightarrow> bool" where
  "valid_date dt =
     (case dt of (y, m, d) \<Rightarrow>
        1 \<le> y \<and> y \<le> 9999 \<and> 1 \<le> m \<and> m \<le> 12 \<and> 1 \<le> d \<and> d \<le> days_in_month y m)"

definition strptime_dmy :: "string \<Rightarrow> py_error + date" where
  "strptime_dmy s =
     (case split_on CHR ''/'' s of
        [ds, ms, ys] \<Rightarrow>
          (case (parse_day ds, parse_month ms, parse_year ys) of
             (Some d, Some m, Some y) \<Rightarrow>
               if valid_date (y, m, d) then Inr (y, m, d) else Inl ValueError
           | _ \<Rightarrow> Inl ValueError)
      | _ \<Rightarrow> Inl ValueError)"

section \<open>\<open>analyze_compliance\<close> (source lines 125 to 181)\<close>

datatype group = G_with_uk | G_without_uk

record group_metrics =
  late_confstmt :: nat
  late_accounts :: nat
  default_address :: nat

type_synonym metrics = "group \<Rightarrow> group_metrics"

definition metrics0 :: metrics where
  "metrics0 = (\<lambda>g. \<lparr>late_confstmt = 0, late_accounts = 0, default_address = 0\<rparr>)"

definition inc_late_confstmt :: "group \<Rightarrow> metrics \<Rightarrow> metrics" where
  "inc_late_confstmt g m = m(g := (m g)\<lparr>late_confstmt := late_confstmt (m g) + 1\<rparr>)"

definition inc_late_accounts :: "group \<Rightarrow> metrics \<Rightarrow> metrics" where
  "inc_late_accounts g m = m(g := (m g)\<lparr>late_accounts := late_accounts (m g) + 1\<rparr>)"

definition inc_default_address :: "group \<Rightarrow> metrics \<Rightarrow> metrics" where
  "inc_default_address g m = m(g := (m g)\<lparr>default_address := default_address (m g) + 1\<rparr>)"

text \<open>
  The group of a company (lines 139 to 148): the loop over the directors leaves at the
  first director whose residence and address country are both UK.
\<close>

fun find_uk_director :: "nat list set \<Rightarrow> json list \<Rightarrow> py_error + bool" where
  "find_uk_director uk_variants [] = Inr False"
| "find_uk_director uk_variants (officer # rest) =
     (case resolve_country officer of
        Inl e \<Rightarrow> Inl e
      | Inr country \<Rightarrow>
          (case address_country_of officer of
             Inl e \<Rightarrow> Inl e
           | Inr address_country \<Rightarrow>
               (case in_uk uk_variants country of
                  Inl e \<Rightarrow> Inl e
                | Inr res_uk \<Rightarrow>
                    if \<not> res_uk then find_uk_director uk_variants rest
                    else (case in_uk uk_variants address_country of
                            Inl e \<Rightarrow> Inl e
                          | Inr addr_uk \<Rightarrow>
                              if addr_uk then Inr True
                              else find_uk_director uk_variants rest))))"

text \<open>
  A \<open>try\<close> block of lines 153 to 158 and 161 to 166: whatever \<open>strptime\<close> raises is
  caught and passed over.
\<close>

definition late_check :: "date \<Rightarrow> string \<Rightarrow> (metrics \<Rightarrow> metrics) \<Rightarrow> metrics \<Rightarrow> metrics" where
  "late_check today due inc m =
     (case strptime_dmy due of
        Inl e \<Rightarrow> m
      | Inr due_date \<Rightarrow> if date_less due_date today then inc m else m)"

text \<open>\<open>isinstance(val, str) and 'default address' in val.lower()\<close>\<close>

definition is_default_val :: "json \<Rightarrow> bool" where
  "is_default_val val =
     (case val of JStr s \<Rightarrow> py_in ''default address'' (lower s) | _ \<Rightarrow> False)"

text \<open>The inner loop of lines 177 to 180, whose \<open>break\<close> leaves this loop.\<close>

fun scan_values :: "group \<Rightarrow> json list \<Rightarrow> metrics \<Rightarrow> metrics" where
  "scan_values g [] m = m"
| "scan_values g (val # vals) m =
     (if is_default_val val then inc_default_address g m else scan_values g vals m)"

text \<open>The body of the loop over the directors of lines 175 to 180.\<close>

definition scan_director :: "group \<Rightarrow> json \<Rightarrow> metrics \<Rightarrow> py_error + metrics" where
  "scan_director g officer m =
     (case py_get officer ''address'' (JObj []) of
        Inl e \<Rightarrow> Inl e
      | Inr a \<Rightarrow>
          (case py_values (if truthy a then a else JObj []) of
             Inl e \<Rightarrow> Inl e
           | Inr vals \<Rightarrow> Inr (scan_values g vals m)))"

text \<open>The body of the loop over the companies (lines 138 to 180).\<close>

definition analyze_company :: "date \<Rightarrow> nat list set \<Rightarrow> company \<Rightarrow> metrics \<Rightarrow> py_error + metrics" where
  "analyze_company today uk_variants info m =
     (case find_uk_director uk_variants (directors info) of
        Inl e \<Rightarrow> Inl e
      | Inr has_uk \<Rightarrow>
          let g = (if has_uk then G_with_uk else G_without_uk);
              data = company_data info;
              conf_due = strip (data_get data ''ConfStmtNextDueDate'');
              m1 = late_check today conf_due (inc_late_confstmt g) m;
              acc_due = strip (data_get data ''Accounts.NextDueDate'');
              m2 = late_check today acc_due (inc_late_accounts g) m1;
              addr = strip (data_get data ''RegAddress.AddressLine1'')
          in if py_in ''default address'' (lower addr) then Inr (inc_default_address g m2)
             else for_loop (scan_director g) (directors info) m2)"

text \<open>\<open>today\<close> is the date of the run, read from the clock at line 135.\<close>

definition analyze_compliance :: "date \<Rightarrow> company list \<Rightarrow> nat list set \<Rightarrow> py_error + metrics" where
  "analyze_compliance today sampled_companies uk_variants =
     for_loop (analyze_company today uk_variants) sampled_companies metrics0"

section \<open>Proportions and margins of error\<close>

text \<open>
  Python's floats are taken as real numbers. \<open>a / b\<close> raises for \<open>b = 0\<close>,
  \<open>math.sqrt\<close> raises for a negative argument.
\<close>

definition Z95 :: real where
  "Z95 = 196 / 100"

definition py_truediv :: "real \<Rightarrow> real \<Rightarrow> py_error + real" where
  "py_truediv a b = (if b = 0 then Inl ZeroDivisionError else Inr (a / b))"

definition math_sqrt :: "real \<Rightarrow> py_error + real" where
  "math_sqrt x = (if x < 0 then Inl ValueError else Inr (sqrt x))"

text \<open>\<open>z * math.sqrt(p * (1 - p) / n)\<close>\<close>

definition moe_expr :: "real \<Rightarrow> real \<Rightarrow> nat \<Rightarrow> py_error + real" where
  "moe_expr z p n =
     (case py_truediv (p * (1 - p)) (real n) of
        Inl e \<Rightarrow> Inl e
      | Inr q \<Rightarrow> (case math_sqrt q of Inl e \<Rightarrow> Inl e | Inr r \<Rightarrow> Inr (z * r)))"

text \<open>\<open>k / n if n else 0\<close> (lines 110, 115 and 195)\<close>

definition proportion :: "nat \<Rightarrow> nat \<Rightarrow> py_error + real" where
  "proportion k n = (if n \<noteq> 0 then py_truediv (real k) (real n) else Inr 0)"

text \<open>\<open>Z95 * math.sqrt(p * (1 - p) / n) if n else 0\<close> (lines 111, 116 and 196)\<close>

definition margin :: "real \<Rightarrow> nat \<Rightarrow> py_error + real" where
  "margin p n = (if n \<noteq> 0 then moe_expr Z95 p n else Inr 0)"

text \<open>The pair the program prints for a count \<open>k\<close> out of \<open>n\<close>.\<close>

definition estimate :: "nat \<Rightarrow> nat \<Rightarrow> py_error + real \<times> real" where
  "estimate k n =
     (case proportion k n of
        Inl e \<Rightarrow> Inl e
      | Inr p \<Rightarrow> (case margin p n of Inl e \<Rightarrow> Inl e | Inr moe \<Rightarrow> Inr (p, moe)))"

subsection \<open>\<open>count_foreign_and_uk_directors\<close> (source lines 102 to 122)\<close>

text \<open>
  The result is the counts, with the four numbers printed on the way:
  \<open>((pct_foreign, moe_foreign), (pct_questionable_residence, moe_questionable_residence))\<close>.
\<close>

definition count_foreign_and_uk_directors ::
    "company list \<Rightarrow> nat list set \<Rightarrow> py_error + counts \<times> (real \<times> real) \<times> (real \<times> real)" where
  "count_foreign_and_uk_directors sampled uk_variants =
     (case count_companies_by_uk_director_status sampled uk_variants of
        Inl e \<Rightarrow> Inl e
      | Inr c \<Rightarrow>
          (case estimate (without_uk c) (total_companies c) of
             Inl e \<Rightarrow> Inl e
           | Inr foreign \<Rightarrow>
               (case estimate (questionable_residence c) (total_directors c) of
                  Inl e \<Rightarrow> Inl e
                | Inr questionable \<Rightarrow> Inr (c, foreign, questionable))))"

subsection \<open>\<open>display_compliance_indicators\<close> (source lines 183 to 197)\<close>

definition group_count :: "counts \<Rightarrow> group \<Rightarrow> nat" where
  "group_count c g = (case g of G_with_uk \<Rightarrow> with_uk c | G_without_uk \<Rightarrow> without_uk c)"

text \<open>The lines printed, as (count, p, moe_metric), appended to those printed so far.\<close>

definition display_metric ::
    "nat \<Rightarrow> nat \<Rightarrow> (nat \<times> real \<times> real) list \<Rightarrow> py_error + (nat \<times> real \<times> real) list" where
  "display_metric n count out =
     (case estimate count n of
        Inl e \<Rightarrow> Inl e
      | Inr (p, moe_metric) \<Rightarrow> Inr (out @ [(count, p, moe_metric)]))"

definition display_group ::
    "counts \<Rightarrow> metrics \<Rightarrow> group \<Rightarrow> (nat \<times> real \<times> real) list
       \<Rightarrow> py_error + (nat \<times> real \<times> real) list" where
  "display_group c m g out =
     for_loop (\<lambda>key. display_metric (group_count c g) (key (m g)))
       [late_confstmt, late_accounts, default_address] out"

definition display_compliance_indicators ::
    "counts \<Rightarrow> metrics \<Rightarrow> py_error + (nat \<times> real \<times> real) list" where
  "display_compliance_indicators c m =
     for_loop (display_group c m) [G_with_uk, G_without_uk] []"

subsection \<open>\<open>calculate_and_print_default_address_ratio\<close> (source lines 200 to 257)\<close>

text \<open>The body of the loop of lines 207 to 222 for one group: \<open>(p, moe_p)\<close>.\<close>

definition ratio_stats :: "real \<Rightarrow> nat \<Rightarrow> nat \<Rightarrow> py_error + real \<times> real" where
  "ratio_stats z n count =
     (case (if n > 0 then py_truediv (real count) (real n) else Inr 0) of
        Inl e \<Rightarrow> Inl e
      | Inr p \<Rightarrow>
          if n > 0 \<and> p > 0 \<and> p < 1 then
            (case moe_expr z p n of Inl e \<Rightarrow> Inl e | Inr moe_p \<Rightarrow> Inr (p, moe_p))
          else if n > 0 \<and> (p = 0 \<or> p = 1) then
            (case moe_expr z p n of Inl e \<Rightarrow> Inl e | Inr moe_p \<Rightarrow> Inr (p, moe_p))
          else Inr (p, 0))"

text \<open>Lines 236 to 242: the relative error squared of one side.\<close>

definition rel_err_sq :: "real \<Rightarrow> real \<Rightarrow> py_error + real" where
  "rel_err_sq p moe_p =
     (if p > 0 \<and> moe_p > 0 then
        (case py_truediv moe_p p of Inl e \<Rightarrow> Inl e | Inr q \<Rightarrow> Inr (q ^ 2))
      else Inr 0)"

text \<open>
  Lines 229 to 253, from the two proportions and their margins: the pair printed at
  line 257, \<open>(ratio, moe_ratio)\<close>.
\<close>

definition ratio_with_moe :: "real \<Rightarrow> real \<Rightarrow> real \<Rightarrow> real \<Rightarrow> py_error + real \<times> real" where
  "ratio_with_moe p_uk moe_p_uk p_foreign moe_p_foreign =
     (case py_truediv p_foreign p_uk of
        Inl e \<Rightarrow> Inl e
      | Inr ratio \<Rightarrow>
     (case rel_err_sq p_foreign moe_p_foreign of
        Inl e \<Rightarrow> Inl e
      | Inr rel_err_sq_foreign \<Rightarrow>
     (case rel_err_sq p_uk moe_p_uk of
        Inl e \<Rightarrow> Inl e
      | Inr rel_err_sq_uk \<Rightarrow>
          if ratio \<noteq> 0 then
            if rel_err_sq_foreign > 0 \<or> rel_err_sq_uk > 0 then
              (case math_sqrt (rel_err_sq_foreign + rel_err_sq_uk) of
                 Inl e \<Rightarrow> Inl e
               | Inr r \<Rightarrow> Inr (ratio, \<bar>ratio\<bar> * r))
            else Inr (ratio, 0)
          else Inr (ratio, 0))))"

definition calculate_and_print_default_address_ratio ::
    "counts \<Rightarrow> metrics \<Rightarrow> real \<Rightarrow> py_error + real \<times> real" where
  "calculate_and_print_default_address_ratio c m z =
     (case ratio_stats z (with_uk c) (default_address (m G_with_uk)) of
        Inl e \<Rightarrow> Inl e
      | Inr (p_uk, moe_p_uk) \<Rightarrow>
     (case ratio_stats z (without_uk c) (default_address (m G_without_uk)) of
        Inl e \<Rightarrow> Inl e
      | Inr (p_foreign, moe_p_foreign) \<Rightarrow>
          ratio_with_moe p_uk moe_p_uk p_foreign moe_p_foreign))"

section \<open>The claims' own notions\<close>

text \<open>
  A country value is a member of the UK variant set when it is a string whose trimmed,
  case-folded text is in the set.
\<close>

definition uk_member :: "nat list set \<Rightarrow> json \<Rightarrow> bool" where
  "uk_member uk_variants x =
     (case x of JStr s \<Rightarrow> casefold (strip s) \<in> uk_variants | _ \<Rightarrow> False)"

text \<open>
  A questionable residence: the resolved residence country is a member of the UK variant
  set, the address country is absent or not a member.
\<close>

definition questionable :: "nat list set \<Rightarrow> json \<Rightarrow> bool" where
  "questionable uk_variants officer =
     (case resolve_country officer of
        Inl e \<Rightarrow> False
      | Inr country \<Rightarrow>
          uk_member uk_variants country \<and>
          (case address_country_of officer of
             Inl e \<Rightarrow> False
           | Inr address_country \<Rightarrow> \<not> uk_member uk_variants address_country))"

text \<open>The outcome of the full scan of a company's directors: its \<open>has_uk\<close>.\<close>

definition full_scan_has_uk :: "nat list set \<Rightarrow> json list \<Rightarrow> py_error + bool" where
  "full_scan_has_uk uk_variants ds =
     (case for_loop (count_director uk_variants) ds (False, counts0) of
        Inl e \<Rightarrow> Inl e
      | Inr (has_uk, c) \<Rightarrow> Inr has_uk)"

text \<open>
  The resolved residence country in the claim's words: \<open>country_of_residence\<close> when it is
  present and a non-empty string, \<open>residence_country\<close> (\<open>None\<close> when absent) otherwise.
\<close>

definition spec_resolved :: "(string \<times> json) list \<Rightarrow> json" where
  "spec_resolved kvs =
     (let fallback = (case map_of kvs ''residence_country'' of None \<Rightarrow> JNull | Some w \<Rightarrow> w)
      in case map_of kvs ''country_of_residence'' of
           Some (JStr s) \<Rightarrow> if s \<noteq> [] then JStr s else fallback
         | _ \<Rightarrow> fallback)"

text \<open>The same officer without its \<open>country_of_residence\<close> field.\<close>

definition without_residence :: "(string \<times> json) list \<Rightarrow> (string \<times> json) list" where
  "without_residence kvs = AList.delete ''country_of_residence'' kvs"

text \<open>
  The ratio estimator in the claim's words: the relative error squared of one side, and
  the margin of the ratio from the two terms.
\<close>

definition spec_rel_err_sq :: "real \<Rightarrow> real \<Rightarrow> real" where
  "spec_rel_err_sq p moe_p = (if p > 0 \<and> moe_p > 0 then (moe_p / p)\<^sup>2 else 0)"

definition spec_moe_ratio :: "real \<Rightarrow> real \<Rightarrow> real \<Rightarrow> real" where
  "spec_moe_ratio ratio term_foreign term_uk =
     (if ratio = 0 \<or> (term_foreign = 0 \<and> term_uk = 0) then 0
      else \<bar>ratio\<bar> * sqrt (term_foreign + term_uk))"

text \<open>
  A due-date field is late when, stripped, it parses as a day/month/year date and that
  date is strictly before the date of the run.
\<close>

definition parses_before :: "date \<Rightarrow> string \<Rightarrow> bool" where
  "parses_before today field =
     (case strptime_dmy (strip field) of Inl e \<Rightarrow> False | Inr d \<Rightarrow> date_less d today)"

text \<open>The group the short-circuit classifier gives a company.\<close>

definition group_of :: "bool \<Rightarrow> group" where
  "group_of has_uk = (if has_uk then G_with_uk else G_without_uk)"

text \<open>
  A director has a default address when some string-valued field of the address mapping
  contains "default address", whatever the case of its letters.
\<close>

definition has_default_address :: "json \<Rightarrow> bool" where
  "has_default_address officer =
     (case py_get officer ''address'' (JObj []) of
        Inl e \<Rightarrow> False
      | Inr a \<Rightarrow>
          (case py_values (if truthy a then a else JObj []) of
             Inl e \<Rightarrow> False
           | Inr vals \<Rightarrow> list_ex is_default_val vals))"

text \<open>The registered office address's first line is flagged.\<close>

definition registered_default :: "company \<Rightarrow> bool" where
  "registered_default info =
     py_in ''default address''
       (lower (strip (data_get (company_data info) ''RegAddress.AddressLine1'')))"

text \<open>
  A company is late in a group under a due-date field when the short-circuit classifier
  puts it into the group and the field is late.
\<close>

definition late_in_group :: "date \<Rightarrow> nat list set \<Rightarrow> string \<Rightarrow> group \<Rightarrow> company \<Rightarrow> bool" where
  "late_in_group today uk_variants key g info =
     (find_uk_director uk_variants (directors info) = Inr (g = G_with_uk) \<and>
      parses_before today (data_get (company_data info) key))"

section \<open>Sample data\<close>

definition uk_lines :: "string list" where
  "uk_lines = [''United Kingdom'' @ [CHR 0x0A], ''UK'' @ [CHR 0x0A], [CHR 0x0A], ''England'']"

definition officer_uk :: json where
  "officer_uk =
     JObj [(''country_of_residence'', JStr ''United Kingdom''),
           (''address'', JObj [(''address_line_1'', JStr ''1 High Street''),
                              (''country'', JStr ''England'')])]"

definition officer_france :: json where
  "officer_france =
     JObj [(''country_of_residence'', JStr ''United Kingdom''),
           (''address'', JObj [(''address_line_1'', JStr ''3 Rue de Rivoli''),
                              (''country'', JStr ''France'')])]"

definition co_a :: company where
  "co_a = \<lparr>directors = [officer_france, officer_uk],
           company_data = [(''ConfStmtNextDueDate'', ''01/01/2000'')]\<rparr>"

definition co_b :: company where
  "co_b = \<lparr>directors = [officer_france], company_data = []\<rparr>"

definition blank_fields :: "(string \<times> json) list" where
  "blank_fields =
     [(''country_of_residence'', JStr []),
      (''residence_country'', JStr ''England''),
      (''address'', JObj [(''country'', JStr ''UK'')])]"

definition counts_3_2 :: counts where
  "counts_3_2 = \<lparr>with_uk = 3, without_uk = 2, questionable_residence = 0,
                 total_directors = 7, total_companies = 5\<rparr>"

definition metrics_foreign_default :: metrics where
  "metrics_foreign_default =
     metrics0(G_without_uk := \<lparr>late_confstmt = 0, late_accounts = 0, default_address = 1\<rparr>)"

definition counts_4_2 :: counts where
  "counts_4_2 = \<lparr>with_uk = 4, without_uk = 2, questionable_residence = 0,
                 total_directors = 9, total_companies = 6\<rparr>"

definition metrics_one_each :: metrics where
  "metrics_one_each = (\<lambda>g. \<lparr>late_confstmt = 0, late_accounts = 0, default_address = 1\<rparr>)"

definition run_date :: date where
  "run_date = (2026, 11, 3)"

definition officer_default :: json where
  "officer_default =
     JObj [(''country_of_residence'', JStr ''France''),
           (''address'', JObj [(''address_line_1'', JStr ''3 Default address Road''),
                              (''country'', JStr ''France'')])]"

definition co_two_default :: company where
  "co_two_default =
     \<lparr>directors = [officer_default, officer_default],
      company_data = [(''RegAddress.AddressLine1'', ''1 High Street'')]\<rparr>"

definition officer_null_address :: json where
  "officer_null_address =
     JObj [(''country_of_residence'', JStr ''France''), (''address'', JNull)]"

definition co_null :: company where
  "co_null = \<lparr>directors = [officer_uk, officer_null_address], company_data = []\<rparr>"

definition co_c :: company where
  "co_c = \<lparr>directors = [officer_france],
           company_data = [(''ConfStmtNextDueDate'', ''01/01/2099''),
                           (''Accounts.NextDueDate'', ''N/A'')]\<rparr>"

definition co_d :: company where
  "co_d = \<lparr>directors = [],
           company_data = [(''Accounts.NextDueDate'', '' 31/12/2020 '')]\<rparr>"

section \<open>Properties\<close>

lemma casefold_Nil_iff: "casefold s = [] \<longleftrightarrow> s = []"
  by (cases s) (simp_all add: casefold_def casefold_char_def)

lemma load_UK_variants_eq:
  "load_UK_variants f = {casefold (strip l) | l. l \<in> set f \<and> strip l \<noteq> []}"
  unfolding load_UK_variants_def Let_def by (simp add: image_def) blast

lemma empty_notin_load_UK_variants: "[] \<notin> load_UK_variants f"
proof
  assume "[] \<in> load_UK_variants f"
  then obtain l where "casefold (strip l) = []" and "strip l \<noteq> []"
    unfolding load_UK_variants_eq by force
  then show False by (simp add: casefold_Nil_iff)
qed

lemma strip_Nil: "strip [] = []"
  by (simp add: strip_def)

subsection \<open>Trimming and case\<close>

lemma lower_char_cases:
  "lower_char c = c \<or> ((of_char (lower_char c) :: nat) = of_char c + 32 \<and>
     ((65 \<le> (of_char c :: nat) \<and> (of_char c :: nat) \<le> 90) \<or>
      (192 \<le> (of_char c :: nat) \<and> (of_char c :: nat) \<le> 222 \<and> (of_char c :: nat) \<noteq> 215)))"
  by (auto simp: lower_char_def Let_def)

lemma isspace_lower_char: "isspace (lower_char c) = isspace c"
  using lower_char_cases[of c] by (auto simp: isspace_def)

lemma casefold_lower_char: "casefold_char (lower_char c) = casefold_char c"
proof -
  from lower_char_cases[of c] show ?thesis
  proof
    assume "lower_char c = c" then show ?thesis by simp
  next
    assume a: "(of_char (lower_char c) :: nat) = of_char c + 32 \<and>
     ((65 \<le> (of_char c :: nat) \<and> (of_char c :: nat) \<le> 90) \<or>
      (192 \<le> (of_char c :: nat) \<and> (of_char c :: nat) \<le> 222 \<and> (of_char c :: nat) \<noteq> 215))"
    then have "lower_char (lower_char c) = lower_char c"
      by (auto simp: lower_char_def[of "lower_char c"] Let_def)
    with a show ?thesis by (auto simp: casefold_char_def)
  qed
qed

lemma strip_pad_left:
  assumes "list_all isspace l"
  shows "strip (l @ s) = strip s"
proof -
  have "dropWhile isspace (l @ s) = dropWhile isspace s"
    by (rule dropWhile_append2) (use assms in \<open>simp add: list_all_iff\<close>)
  then show ?thesis by (simp only: strip_def)
qed

lemma strip_all_space:
  assumes "list_all isspace s"
  shows "strip s = []"
proof -
  from assms have "\<forall>x\<in>set s. isspace x" by (simp only: list_all_iff)
  then have "dropWhile isspace s = []" by (simp only: dropWhile_eq_Nil_conv)
  then show ?thesis by (simp only: strip_def rev.simps dropWhile.simps)
qed

lemma strip_pad_right:
  assumes "list_all isspace r"
  shows "strip (s @ r) = strip s"
proof (cases "list_all isspace s")
  case True
  with assms have "list_all isspace (s @ r)" by simp
  then show ?thesis using True by (simp only: strip_all_space)
next
  case False
  then obtain y where y: "y \<in> set s" "\<not> isspace y" by (auto simp: list_all_iff)
  then have a: "dropWhile isspace (s @ r) = dropWhile isspace s @ r"
    by (rule dropWhile_append1)
  have b: "dropWhile isspace (rev r @ z) = dropWhile isspace z" for z
    by (rule dropWhile_append2) (use assms in \<open>simp add: list_all_iff\<close>)
  show ?thesis unfolding strip_def a rev_append b ..
qed

lemma strip_lower: "strip (lower s) = lower (strip s)"
proof -
  have c: "isspace \<circ> lower_char = isspace" using isspace_lower_char by (simp add: fun_eq_iff)
  have d: "dropWhile isspace (map lower_char xs) = map lower_char (dropWhile isspace xs)" for xs
    by (simp only: dropWhile_map c)
  show ?thesis by (simp only: strip_def lower_def d rev_map)
qed

lemma casefold_lower: "casefold (lower s) = casefold s"
  using casefold_lower_char by (simp add: casefold_def lower_def comp_def)

subsection \<open>Loops\<close>

lemma for_loop_append:
  "for_loop body (xs @ ys) st =
     (case for_loop body xs st of Inl e \<Rightarrow> Inl e | Inr st' \<Rightarrow> for_loop body ys st')"
  by (induction xs arbitrary: st) (auto split: sum.splits)

lemma for_loop_invariant:
  assumes "for_loop body xs st = Inr st'"
    and "P st"
    and "\<And>x s s'. x \<in> set xs \<Longrightarrow> P s \<Longrightarrow> body x s = Inr s' \<Longrightarrow> P s'"
  shows "P st'"
  using assms
proof (induction xs arbitrary: st)
  case Nil
  then show ?case by simp
next
  case (Cons x xs)
  from Cons.prems(1) obtain s1 where b: "body x st = Inr s1" and r: "for_loop body xs s1 = Inr st'"
    by (auto split: sum.splits)
  have "P s1" using Cons.prems(2) b Cons.prems(3)[of x st s1] by simp
  moreover have "\<And>y s s'. y \<in> set xs \<Longrightarrow> P s \<Longrightarrow> body y s = Inr s' \<Longrightarrow> P s'"
    using Cons.prems(3) by (meson list.set_intros(2))
  ultimately show ?case using Cons.IH[OF r] by blast
qed

lemma for_loop_total:
  assumes "\<And>x s. x \<in> set xs \<Longrightarrow> \<exists>s'. body x s = Inr s'"
  shows "\<exists>st'. for_loop body xs st = Inr st'"
  using assms
proof (induction xs arbitrary: st)
  case Nil
  then show ?case by simp
next
  case (Cons x xs)
  from Cons.prems obtain s1 where "body x st = Inr s1" by force
  moreover from Cons have "\<exists>st'. for_loop body xs s1 = Inr st'" by simp
  ultimately show ?case by simp
qed

subsection \<open>Director records never make the classifiers raise\<close>

lemma opt_str_cases:
  "opt_str v \<Longrightarrow> v = None \<or> v = Some JNull \<or> (\<exists>s. v = Some (JStr s))"
  by (auto simp: opt_str_def split: option.splits json.splits)

lemma director_record_resolve:
  assumes "director_record officer"
  shows "\<exists>c. resolve_country officer = Inr c \<and> (c = JNull \<or> (\<exists>s. c = JStr s))"
proof -
  from assms obtain kvs where o: "officer = JObj kvs"
    and a: "opt_str (map_of kvs ''country_of_residence'')"
    and b: "opt_str (map_of kvs ''residence_country'')"
    by (auto simp: director_record_def split: json.splits)
  from opt_str_cases[OF a] opt_str_cases[OF b] show ?thesis
    unfolding o resolve_country_def by (elim disjE exE) auto
qed

lemma director_record_address:
  assumes "director_record officer"
  shows "\<exists>c. address_country_of officer = Inr c \<and> (c = JNull \<or> (\<exists>s. c = JStr s))"
proof -
  from assms obtain kvs where o: "officer = JObj kvs"
    and a: "case map_of kvs ''address'' of None \<Rightarrow> True
            | Some (JObj a) \<Rightarrow> opt_str (map_of a ''country'') | Some _ \<Rightarrow> False"
    by (auto simp: director_record_def split: json.splits)
  show ?thesis
  proof (cases "map_of kvs ''address''")
    case None
    then show ?thesis unfolding o address_country_of_def by simp
  next
    case (Some v)
    with a obtain ad where v: "v = JObj ad" and c: "opt_str (map_of ad ''country'')"
      by (auto split: json.splits)
    from opt_str_cases[OF c] show ?thesis
      unfolding o address_country_of_def using Some v by (elim disjE exE) auto
  qed
qed

lemma in_uk_typed: "c = JNull \<or> (\<exists>s. c = JStr s) \<Longrightarrow> \<exists>b. in_uk uk c = Inr b"
  by (auto simp: in_uk_def)

lemma count_director_total:
  assumes "director_record officer"
  shows "\<exists>st'. count_director uk officer st = Inr st'"
proof -
  obtain h c where st: "st = (h, c)" by (cases st)
  from director_record_resolve[OF assms] obtain r where
    r: "resolve_country officer = Inr r" and rt: "r = JNull \<or> (\<exists>s. r = JStr s)" by blast
  from director_record_address[OF assms] obtain a where
    a: "address_country_of officer = Inr a" and at: "a = JNull \<or> (\<exists>s. a = JStr s)" by blast
  from in_uk_typed[OF rt] obtain b1 where b1: "in_uk uk r = Inr b1" by blast
  from in_uk_typed[OF at] obtain b2 where b2: "in_uk uk a = Inr b2" by blast
  show ?thesis by (auto simp: count_director_def st r a b1 b2 Let_def)
qed

lemma count_company_total:
  assumes "list_all director_record (directors info)"
  shows "\<exists>c'. count_company uk info c = Inr c'"
proof -
  have "\<exists>st'. for_loop (count_director uk) (directors info) (False, c) = Inr st'"
    using assms by (intro for_loop_total count_director_total) (simp add: list_all_iff)
  then show ?thesis by (auto simp: count_company_def split: prod.splits)
qed

lemma count_companies_total:
  assumes "company_records cs"
  shows "\<exists>c. count_companies_by_uk_director_status cs uk = Inr c"
proof -
  have "\<exists>c. for_loop (count_company uk) cs counts0 = Inr c"
    using assms by (intro for_loop_total count_company_total) (simp add: company_records_def list_all_iff)
  then show ?thesis by (auto simp: count_companies_by_uk_director_status_def)
qed

subsection \<open>Company counts\<close>

lemma count_director_groups:
  assumes "count_director uk officer (h, c) = Inr (h', c')"
  shows "with_uk c' = with_uk c \<and> without_uk c' = without_uk c"
  using assms by (auto simp: count_director_def Let_def split: sum.splits if_splits)

lemma count_directors_groups:
  assumes "for_loop (count_director uk) ds (h, c) = Inr (h', c')"
  shows "with_uk c' = with_uk c \<and> without_uk c' = without_uk c"
proof -
  have "(\<lambda>st. with_uk (snd st) = with_uk c \<and> without_uk (snd st) = without_uk c) (h', c')"
  proof (rule for_loop_invariant[OF assms])
    show "with_uk (snd (h, c)) = with_uk c \<and> without_uk (snd (h, c)) = without_uk c" by simp
  next
    fix x s s'
    assume "with_uk (snd s) = with_uk c \<and> without_uk (snd s) = without_uk c"
      and "count_director uk x s = Inr s'"
    then show "with_uk (snd s') = with_uk c \<and> without_uk (snd s') = without_uk c"
      using count_director_groups[of uk x "fst s" "snd s" "fst s'" "snd s'"] by simp
  qed
  then show ?thesis by simp
qed

lemma count_company_groups:
  assumes "count_company uk info c = Inr c'"
  shows "with_uk c' + without_uk c' = with_uk c + without_uk c + 1"
proof -
  from assms obtain h c1 where l: "for_loop (count_director uk) (directors info) (False, c) = Inr (h, c1)"
    and c': "c' = (if h then c1\<lparr>with_uk := with_uk c1 + 1\<rparr> else c1\<lparr>without_uk := without_uk c1 + 1\<rparr>)"
    by (auto simp: count_company_def split: sum.splits prod.splits if_splits)
  from count_directors_groups[OF l] c' show ?thesis by simp
qed

lemma count_companies_groups:
  "for_loop (count_company uk) cs c = Inr c' \<Longrightarrow>
     with_uk c' + without_uk c' = with_uk c + without_uk c + length cs"
proof (induction cs arbitrary: c)
  case Nil
  then show ?case by simp
next
  case (Cons info cs)
  from Cons.prems obtain c1 where a: "count_company uk info c = Inr c1"
    and b: "for_loop (count_company uk) cs c1 = Inr c'"
    by (auto split: sum.splits)
  from count_company_groups[OF a] Cons.IH[OF b] show ?case by simp
qed

text \<open>
  C8. Whenever \<open>count_companies_by_uk_director_status\<close> returns counts, their
  \<open>total_companies\<close> is \<open>with_uk + without_uk\<close>, and that sum is the number of
  companies in the input.
\<close>

theorem total_companies_is_with_plus_without:
  "count_companies_by_uk_director_status cs uk = Inr c \<Longrightarrow>
     total_companies c = with_uk c + without_uk c \<and> with_uk c + without_uk c = length cs"
proof -
  assume a: "count_companies_by_uk_director_status cs uk = Inr c"
  then obtain c1 where l: "for_loop (count_company uk) cs counts0 = Inr c1"
    and c: "c = c1\<lparr>total_companies := with_uk c1 + without_uk c1\<rparr>"
    by (auto simp: count_companies_by_uk_director_status_def split: sum.splits)
  from count_companies_groups[OF l] c show ?thesis by (simp add: counts0_def)
qed


theorem total_companies_is_with_plus_without_witness:
  "\<exists>c. count_companies_by_uk_director_status [co_a, co_b] (load_UK_variants uk_lines) = Inr c \<and>
       total_companies c = 2 \<and> with_uk c + without_uk c = 2 \<and> with_uk c = 1"
proof -
  have h: "count_companies_by_uk_director_status [co_a, co_b] (load_UK_variants uk_lines) =
      Inr \<lparr>with_uk = 1, without_uk = 1, questionable_residence = 2,
           total_directors = 3, total_companies = 2\<rparr>"
    by code_simp
  from total_companies_is_with_plus_without[OF h] h show ?thesis by simp
qed


subsection \<open>The two classifiers\<close>

lemma count_director_cases:
  assumes "count_director uk officer (h, c) = Inr (h', c')"
  obtains r a b1 where "resolve_country officer = Inr r" "address_country_of officer = Inr a"
    "in_uk uk r = Inr b1" "\<not> b1"
    "h' = h" "c' = c\<lparr>total_directors := total_directors c + 1\<rparr>"
  | r a where "resolve_country officer = Inr r" "address_country_of officer = Inr a"
    "in_uk uk r = Inr True" "in_uk uk a = Inr True"
    "h' = True" "c' = c\<lparr>total_directors := total_directors c + 1\<rparr>"
  | r a where "resolve_country officer = Inr r" "address_country_of officer = Inr a"
    "in_uk uk r = Inr True" "in_uk uk a = Inr False"
    "h' = h" "c' = c\<lparr>total_directors := total_directors c + 1,
                       questionable_residence := questionable_residence c + 1\<rparr>"
  using assms unfolding count_director_def Let_def
  by (auto split: sum.splits if_splits)

lemma count_director_any_counts:
  assumes "count_director uk officer (h, c) = Inr (h', c')"
  shows "\<exists>d'. count_director uk officer (h, d) = Inr (h', d')"
  using assms unfolding count_director_def Let_def
  by (auto split: sum.splits if_splits)

lemma count_directors_any_counts:
  "for_loop (count_director uk) ds (h, c) = Inr (h', c') \<Longrightarrow>
     \<exists>d'. for_loop (count_director uk) ds (h, d) = Inr (h', d')"
proof (induction ds arbitrary: h c d)
  case Nil
  then show ?case by simp
next
  case (Cons x ds)
  from Cons.prems obtain h1 c1 where a: "count_director uk x (h, c) = Inr (h1, c1)"
    and b: "for_loop (count_director uk) ds (h1, c1) = Inr (h', c')"
    by (auto split: sum.splits)
  from count_director_any_counts[OF a] obtain d1 where
    a': "count_director uk x (h, d) = Inr (h1, d1)" by blast
  from Cons.IH[OF b] obtain d' where "for_loop (count_director uk) ds (h1, d1) = Inr (h', d')"
    by blast
  with a' show ?case by simp
qed

lemma count_directors_find:
  "for_loop (count_director uk) ds (h, c) = Inr (h', c') \<Longrightarrow>
     \<exists>b. find_uk_director uk ds = Inr b \<and> h' = (h \<or> b)"
proof (induction ds arbitrary: h c)
  case Nil
  then show ?case by auto
next
  case (Cons x ds)
  from Cons.prems obtain h1 c1 where a: "count_director uk x (h, c) = Inr (h1, c1)"
    and b: "for_loop (count_director uk) ds (h1, c1) = Inr (h', c')"
    by (auto split: sum.splits)
  from Cons.IH[OF b] obtain b0 where f: "find_uk_director uk ds = Inr b0" and h': "h' = (h1 \<or> b0)"
    by blast
  from a show ?case
  proof (cases rule: count_director_cases)
    case (1 r a b1)
    then show ?thesis using f h' by auto
  next
    case (2 r a)
    then show ?thesis using f h' by auto
  next
    case (3 r a)
    then show ?thesis using f h' by auto
  qed
qed

lemma full_scan_has_uk_find:
  "full_scan_has_uk uk ds = Inr h \<Longrightarrow> find_uk_director uk ds = Inr h"
  unfolding full_scan_has_uk_def
  by (auto split: sum.splits prod.splits dest: count_directors_find)

lemma count_company_find:
  assumes "count_company uk info c = Inr c'"
  shows "\<exists>h. full_scan_has_uk uk (directors info) = Inr h \<and>
             find_uk_director uk (directors info) = Inr h \<and>
             with_uk c' = with_uk c + (if h then 1 else 0) \<and>
             without_uk c' = without_uk c + (if h then 0 else 1)"
proof -
  from assms obtain h c1 where
    l: "for_loop (count_director uk) (directors info) (False, c) = Inr (h, c1)"
    and c': "c' = (if h then c1\<lparr>with_uk := with_uk c1 + 1\<rparr>
                  else c1\<lparr>without_uk := without_uk c1 + 1\<rparr>)"
    by (auto simp: count_company_def split: sum.splits prod.splits if_splits)
  from count_directors_any_counts[OF l] obtain d' where
    "for_loop (count_director uk) (directors info) (False, counts0) = Inr (h, d')" by blast
  then have fs: "full_scan_has_uk uk (directors info) = Inr h"
    by (simp add: full_scan_has_uk_def)
  from count_directors_groups[OF l] c' fs full_scan_has_uk_find[OF fs] show ?thesis
    by auto
qed

lemma count_companies_find:
  "for_loop (count_company uk) cs c = Inr c' \<Longrightarrow>
     (\<forall>info \<in> set cs. \<exists>h. full_scan_has_uk uk (directors info) = Inr h \<and>
                            find_uk_director uk (directors info) = Inr h) \<and>
     with_uk c' = with_uk c +
       length (filter (\<lambda>info. find_uk_director uk (directors info) = Inr True) cs) \<and>
     without_uk c' = without_uk c +
       length (filter (\<lambda>info. find_uk_director uk (directors info) = Inr False) cs)"
proof (induction cs arbitrary: c)
  case Nil
  then show ?case by simp
next
  case (Cons info cs)
  from Cons.prems obtain c1 where a: "count_company uk info c = Inr c1"
    and b: "for_loop (count_company uk) cs c1 = Inr c'"
    by (auto split: sum.splits)
  from count_company_find[OF a] obtain h where
    h: "full_scan_has_uk uk (directors info) = Inr h"
       "find_uk_director uk (directors info) = Inr h"
       "with_uk c1 = with_uk c + (if h then 1 else 0)"
       "without_uk c1 = without_uk c + (if h then 0 else 1)"
    by blast
  from Cons.IH[OF b] h show ?case by (cases h) auto
qed

subsection \<open>Questionable residence\<close>










subsection \<open>The resolved residence country\<close>

lemma resolve_country_spec:
  assumes "\<forall>v. map_of kvs ''country_of_residence'' = Some v \<and> truthy v \<longrightarrow> (\<exists>s. v = JStr s)"
  shows "resolve_country (JObj kvs) = Inr (spec_resolved kvs)"
proof (cases "map_of kvs ''country_of_residence''")
  case None
  then show ?thesis by (simp add: resolve_country_def spec_resolved_def)
next
  case (Some v)
  show ?thesis
  proof (cases "truthy v")
    case True
    with assms Some obtain s where "v = JStr s" by blast
    with True Some show ?thesis by (simp add: resolve_country_def spec_resolved_def)
  next
    case False
    with Some show ?thesis
      by (cases v) (simp_all add: resolve_country_def spec_resolved_def)
  qed
qed

lemma resolve_country_blank:
  assumes "map_of kvs ''country_of_residence'' = Some (JStr [])"
  shows "resolve_country (JObj (without_residence kvs)) = resolve_country (JObj kvs)"
  using assms by (simp add: resolve_country_def without_residence_def delete_conv')

lemma address_country_blank:
  "address_country_of (JObj (without_residence kvs)) = address_country_of (JObj kvs)"
  by (simp add: address_country_of_def without_residence_def delete_conv')

lemma count_director_cong:
  assumes "resolve_country x = resolve_country y"
    and "address_country_of x = address_country_of y"
  shows "count_director uk x = count_director uk y"
  unfolding count_director_def assms ..

lemma extract_officer_cong:
  assumes "resolve_country x = resolve_country y"
    and "address_country_of x = address_country_of y"
  shows "extract_officer x = extract_officer y"
  unfolding extract_officer_def assms ..

lemma for_loop_cong_mid:
  assumes "body x = body y"
  shows "for_loop body (pre @ x # post) st = for_loop body (pre @ y # post) st"
  using assms by (auto simp: for_loop_append split: sum.splits)

lemma find_uk_director_cong_mid:
  assumes "resolve_country x = resolve_country y"
    and "address_country_of x = address_country_of y"
  shows "find_uk_director uk (pre @ x # post) = find_uk_director uk (pre @ y # post)"
proof (induction pre)
  case Nil
  show ?case unfolding append_Nil find_uk_director.simps assms ..
next
  case (Cons p pre)
  show ?case unfolding append_Cons find_uk_director.simps Cons.IH ..
qed

text \<open>
  C10. The resolved residence country of a director is \<open>country_of_residence\<close> when that
  field is present and a non-empty string, and \<open>residence_country\<close> otherwise (for every
  director whose \<open>country_of_residence\<close>, if truthy, is a string). A director whose
  \<open>country_of_residence\<close> is the empty string and the same director without the field
  are treated alike, wherever they stand among a company's directors, by the full scan
  with its counters, by the short-circuit classifier and by the country extraction.
\<close>

theorem empty_residence_is_absent:
  "((\<forall>v. map_of kvs ''country_of_residence'' = Some v \<and> truthy v \<longrightarrow> (\<exists>s. v = JStr s)) \<longrightarrow>
      resolve_country (JObj kvs) = Inr (spec_resolved kvs)) \<and>
   (map_of kvs ''country_of_residence'' = Some (JStr []) \<longrightarrow>
      resolve_country (JObj kvs) = resolve_country (JObj (without_residence kvs)) \<and>
      for_loop (count_director uk) (pre @ JObj kvs # post) st =
        for_loop (count_director uk) (pre @ JObj (without_residence kvs) # post) st \<and>
      find_uk_director uk (pre @ JObj kvs # post) =
        find_uk_director uk (pre @ JObj (without_residence kvs) # post) \<and>
      for_loop extract_officer (pre @ JObj kvs # post) countries =
        for_loop extract_officer (pre @ JObj (without_residence kvs) # post) countries)"
proof (intro conjI impI)
  assume "\<forall>v. map_of kvs ''country_of_residence'' = Some v \<and> truthy v \<longrightarrow> (\<exists>s. v = JStr s)"
  then show "resolve_country (JObj kvs) = Inr (spec_resolved kvs)"
    by (rule resolve_country_spec)
next
  assume b: "map_of kvs ''country_of_residence'' = Some (JStr [])"
  note r = resolve_country_blank[OF b, symmetric]
  note a = address_country_blank[of kvs, symmetric]
  show "resolve_country (JObj kvs) = resolve_country (JObj (without_residence kvs))"
    by (rule r)
  show "for_loop (count_director uk) (pre @ JObj kvs # post) st =
        for_loop (count_director uk) (pre @ JObj (without_residence kvs) # post) st"
    using count_director_cong[OF r a, of uk]
    by (rule for_loop_cong_mid[of "count_director uk"])
  show "find_uk_director uk (pre @ JObj kvs # post) =
        find_uk_director uk (pre @ JObj (without_residence kvs) # post)"
    by (rule find_uk_director_cong_mid[OF r a])
  show "for_loop extract_officer (pre @ JObj kvs # post) countries =
        for_loop extract_officer (pre @ JObj (without_residence kvs) # post) countries"
    using extract_officer_cong[OF r a]
    by (rule for_loop_cong_mid[of extract_officer])
qed


theorem empty_residence_is_absent_witness:
  "resolve_country (JObj blank_fields) = Inr (JStr ''England'') \<and>
   resolve_country (JObj (without_residence blank_fields)) = Inr (JStr ''England'') \<and>
   for_loop (count_director (load_UK_variants uk_lines))
       ([officer_france] @ JObj (without_residence blank_fields) # []) (False, counts0) =
     Inr (True, \<lparr>with_uk = 0, without_uk = 0, questionable_residence = 1,
                 total_directors = 2, total_companies = 0\<rparr>) \<and>
   find_uk_director (load_UK_variants uk_lines)
       ([officer_france] @ JObj (without_residence blank_fields) # []) = Inr True \<and>
   for_loop extract_officer ([officer_france] @ JObj (without_residence blank_fields) # []) {} =
     Inr {''United Kingdom'', ''France'', ''England'', ''UK''}"
proof -
  have h1: "\<forall>v. map_of blank_fields ''country_of_residence'' = Some v \<and> truthy v
              \<longrightarrow> (\<exists>s. v = JStr s)"
    by (simp add: blank_fields_def)
  have h2: "map_of blank_fields ''country_of_residence'' = Some (JStr [])"
    by (simp add: blank_fields_def)
  note a = empty_residence_is_absent[of blank_fields "load_UK_variants uk_lines"
      "[officer_france]" "[]" "(False, counts0)" "{}"]
  from a h1 have r1: "resolve_country (JObj blank_fields) = Inr (spec_resolved blank_fields)"
    by blast
  from a h2 have r2: "resolve_country (JObj blank_fields) =
      resolve_country (JObj (without_residence blank_fields))"
    and r3: "for_loop (count_director (load_UK_variants uk_lines))
        ([officer_france] @ JObj blank_fields # []) (False, counts0) =
      for_loop (count_director (load_UK_variants uk_lines))
        ([officer_france] @ JObj (without_residence blank_fields) # []) (False, counts0)"
    and r4: "find_uk_director (load_UK_variants uk_lines)
        ([officer_france] @ JObj blank_fields # []) =
      find_uk_director (load_UK_variants uk_lines)
        ([officer_france] @ JObj (without_residence blank_fields) # [])"
    and r5: "for_loop extract_officer ([officer_france] @ JObj blank_fields # []) {} =
      for_loop extract_officer ([officer_france] @ JObj (without_residence blank_fields) # []) {}"
    by blast+
  have e1: "spec_resolved blank_fields = JStr ''England''" by code_simp
  have e3: "for_loop (count_director (load_UK_variants uk_lines))
        ([officer_france] @ JObj blank_fields # []) (False, counts0) =
     Inr (True, \<lparr>with_uk = 0, without_uk = 0, questionable_residence = 1,
                 total_directors = 2, total_companies = 0\<rparr>)"
    by code_simp
  have e4: "find_uk_director (load_UK_variants uk_lines)
        ([officer_france] @ JObj blank_fields # []) = Inr True"
    by code_simp
  have e5: "for_loop extract_officer ([officer_france] @ JObj blank_fields # []) {} =
     Inr {''United Kingdom'', ''France'', ''England'', ''UK''}"
    by code_simp
  from r1 e1 have c1: "resolve_country (JObj blank_fields) = Inr (JStr ''England'')"
    by (simp only:)
  from r2 c1 have c2: "resolve_country (JObj (without_residence blank_fields)) =
      Inr (JStr ''England'')"
    by (simp only:)
  from c1 c2 r3[symmetric] r4[symmetric] r5[symmetric] e3 e4 e5 show ?thesis
    by (simp only: simp_thms)
qed


subsection \<open>Membership in the UK variant set\<close>

lemma in_uk_JStr_loaded:
  "in_uk (load_UK_variants f) (JStr s) = Inr (casefold (strip s) \<in> load_UK_variants f)"
proof (cases "s = []")
  case True
  then show ?thesis
    using empty_notin_load_UK_variants[of f] by (simp add: in_uk_def strip_Nil casefold_def)
next
  case False
  then show ?thesis by (simp add: in_uk_def)
qed

lemma in_uk_padded:
  assumes "list_all isspace l" and "list_all isspace r"
  shows "in_uk (load_UK_variants f) (JStr (l @ a @ r)) = in_uk (load_UK_variants f) (JStr a)"
proof -
  have "strip (l @ a @ r) = strip (a @ r)" using assms(1) by (rule strip_pad_left)
  also have "\<dots> = strip a" using assms(2) by (rule strip_pad_right)
  finally show ?thesis by (simp only: in_uk_JStr_loaded)
qed

lemma in_uk_same_letters:
  assumes "lower a = lower b"
  shows "in_uk (load_UK_variants f) (JStr a) = in_uk (load_UK_variants f) (JStr b)"
proof -
  have "casefold (strip x) = casefold (strip (lower x))" for x
    by (simp only: strip_lower casefold_lower)
  from this[of a] this[of b] assms have "casefold (strip a) = casefold (strip b)"
    by (simp only:)
  then show ?thesis by (simp only: in_uk_JStr_loaded)
qed

lemma in_uk_some_line:
  "in_uk (load_UK_variants f) (JStr a) =
     Inr (\<exists>line \<in> set f. strip line \<noteq> [] \<and> casefold (strip line) = casefold (strip a))"
proof -
  have "casefold (strip a) \<in> load_UK_variants f \<longleftrightarrow>
        (\<exists>line \<in> set f. strip line \<noteq> [] \<and> casefold (strip line) = casefold (strip a))"
    unfolding load_UK_variants_eq mem_Collect_eq by metis
  then show ?thesis by (simp only: in_uk_JStr_loaded)
qed

text \<open>
  C6. For every UK variant set that \<open>load_UK_variants\<close> builds, the membership test of
  the classifiers tells of a country string whether some line of the file that is not
  blank is equal to it after stripping and case-folding. So two strings that are equal
  after trimming and case-folding get the same answer; whitespace before and after a
  string does not change the answer, and neither does the case of its letters. The set is
  the case-folded stripped lines that are not blank, so that lines equal after stripping
  and case-folding are one entry; nothing else is normalised.
\<close>

theorem uk_membership_ignores_case_and_padding:
  "(casefold (strip a) = casefold (strip b) \<longrightarrow>
      in_uk (load_UK_variants f) (JStr a) = in_uk (load_UK_variants f) (JStr b)) \<and>
   (list_all isspace l \<and> list_all isspace r \<longrightarrow>
      in_uk (load_UK_variants f) (JStr (l @ a @ r)) = in_uk (load_UK_variants f) (JStr a)) \<and>
   (lower a = lower b \<longrightarrow>
      in_uk (load_UK_variants f) (JStr a) = in_uk (load_UK_variants f) (JStr b)) \<and>
   in_uk (load_UK_variants f) (JStr a) =
     Inr (\<exists>line \<in> set f. strip line \<noteq> [] \<and> casefold (strip line) = casefold (strip a)) \<and>
   load_UK_variants f = {casefold (strip line) | line. line \<in> set f \<and> strip line \<noteq> []}"
proof (intro conjI impI)
  assume "casefold (strip a) = casefold (strip b)"
  then show "in_uk (load_UK_variants f) (JStr a) = in_uk (load_UK_variants f) (JStr b)"
    by (simp only: in_uk_JStr_loaded)
next
  assume "list_all isspace l \<and> list_all isspace r"
  then show "in_uk (load_UK_variants f) (JStr (l @ a @ r)) =
             in_uk (load_UK_variants f) (JStr a)"
    using in_uk_padded[of l r f a] by blast
next
  assume "lower a = lower b"
  then show "in_uk (load_UK_variants f) (JStr a) = in_uk (load_UK_variants f) (JStr b)"
    by (rule in_uk_same_letters)
next
  show "in_uk (load_UK_variants f) (JStr a) =
     Inr (\<exists>line \<in> set f. strip line \<noteq> [] \<and> casefold (strip line) = casefold (strip a))"
    by (rule in_uk_some_line)
next
  show "load_UK_variants f = {casefold (strip line) | line. line \<in> set f \<and> strip line \<noteq> []}"
    by (rule load_UK_variants_eq)
qed

theorem uk_membership_ignores_case_and_padding_witness:
  "casefold (strip ''UNITED KINGDOM'') = casefold (strip '' united kingdom '') \<and>
   in_uk (load_UK_variants uk_lines) (JStr ''United Kingdom'') = Inr True \<and>
   in_uk (load_UK_variants uk_lines) (JStr ''UNITED KINGDOM'') = Inr True \<and>
   in_uk (load_UK_variants uk_lines) (JStr '' united kingdom '') = Inr True \<and>
   in_uk (load_UK_variants uk_lines)
     (JStr ([CHR 0x09] @ ''UNITED KINGDOM'' @ [CHR 0xA0, CHR 0x0A])) = Inr True \<and>
   in_uk (load_UK_variants uk_lines) (JStr ''United  Kingdom'') = Inr False \<and>
   in_uk (load_UK_variants uk_lines) (JStr ([CHR 0xC9] @ ''ngland'')) = Inr False"
proof -
  have h1: "casefold (strip ''UNITED KINGDOM'') = casefold (strip '' united kingdom '')"
    by code_simp
  have h2: "list_all isspace [CHR 0x09] \<and> list_all isspace [CHR 0xA0, CHR 0x0A]"
    by code_simp
  have h3: "lower ''UNITED KINGDOM'' = lower ''United Kingdom''"
    by code_simp
  have e: "in_uk (load_UK_variants uk_lines) (JStr ''United Kingdom'') = Inr True"
    by code_simp
  have n1: "in_uk (load_UK_variants uk_lines) (JStr ''United  Kingdom'') = Inr False"
    by code_simp
  have n2: "in_uk (load_UK_variants uk_lines) (JStr ([CHR 0xC9] @ ''ngland'')) = Inr False"
    by code_simp
  note a = uk_membership_ignores_case_and_padding[of "''UNITED KINGDOM''"
      "'' united kingdom ''" uk_lines "[CHR 0x09]" "[CHR 0xA0, CHR 0x0A]"]
  note b = uk_membership_ignores_case_and_padding[of "''UNITED KINGDOM''"
      "''United Kingdom''" uk_lines]
  from b h3 have "in_uk (load_UK_variants uk_lines) (JStr ''UNITED KINGDOM'') =
        in_uk (load_UK_variants uk_lines) (JStr ''United Kingdom'')"
    by blast
  with e have c1: "in_uk (load_UK_variants uk_lines) (JStr ''UNITED KINGDOM'') = Inr True"
    by (simp only:)
  from a h1 have "in_uk (load_UK_variants uk_lines) (JStr ''UNITED KINGDOM'') =
        in_uk (load_UK_variants uk_lines) (JStr '' united kingdom '')"
    by blast
  with c1 have c2: "in_uk (load_UK_variants uk_lines) (JStr '' united kingdom '') = Inr True"
    by (simp only:)
  from a h2 have "in_uk (load_UK_variants uk_lines)
       (JStr ([CHR 0x09] @ ''UNITED KINGDOM'' @ [CHR 0xA0, CHR 0x0A])) =
        in_uk (load_UK_variants uk_lines) (JStr ''UNITED KINGDOM'')"
    by blast
  with c1 have c3: "in_uk (load_UK_variants uk_lines)
       (JStr ([CHR 0x09] @ ''UNITED KINGDOM'' @ [CHR 0xA0, CHR 0x0A])) = Inr True"
    by (simp only:)
  from h1 e c1 c2 c3 n1 n2 show ?thesis by (intro conjI)
qed

subsection \<open>Proportions and margins\<close>

lemma proportion_eq: "proportion k n = Inr (if n = 0 then 0 else real k / real n)"
  by (simp add: proportion_def py_truediv_def)

lemma moe_expr_eq:
  assumes "n \<noteq> 0"
  shows "moe_expr z p n =
     (if p * (1 - p) < 0 then Inl ValueError else Inr (z * sqrt (p * (1 - p) / real n)))"
proof -
  have "p * (1 - p) / real n < 0 \<longleftrightarrow> p * (1 - p) < 0"
    using assms by (simp add: divide_less_0_iff)
  then show ?thesis using assms by (simp add: moe_expr_def py_truediv_def math_sqrt_def)
qed

lemma margin_eq:
  "margin p n =
     (if n = 0 then Inr 0
      else if p * (1 - p) < 0 then Inl ValueError
      else Inr (Z95 * sqrt (p * (1 - p) / real n)))"
  by (simp add: margin_def moe_expr_eq)

lemma prod_neg_iff:
  fixes x :: real
  assumes "0 \<le> x"
  shows "x * (1 - x) < 0 \<longleftrightarrow> 1 < x"
proof
  assume a: "x * (1 - x) < 0"
  show "1 < x"
  proof (rule ccontr)
    assume "\<not> 1 < x"
    then have "0 \<le> 1 - x" by simp
    with assms have "0 \<le> x * (1 - x)" by (rule mult_nonneg_nonneg)
    with a show False by simp
  qed
next
  assume a: "1 < x"
  then have "0 < x" and "1 - x < 0" by simp_all
  then show "x * (1 - x) < 0" by (rule mult_pos_neg)
qed

lemma ratio_neg_iff:
  assumes "n \<noteq> 0"
  shows "real k / real n * (1 - real k / real n) < 0 \<longleftrightarrow> n < k"
proof -
  have n: "0 < real n" using assms by simp
  have "0 \<le> real k / real n" by simp
  from prod_neg_iff[OF this]
  have "real k / real n * (1 - real k / real n) < 0 \<longleftrightarrow> 1 < real k / real n" .
  also have "\<dots> \<longleftrightarrow> n < k" using n by simp
  finally show ?thesis .
qed

lemma estimate_eq:
  "estimate k n =
     (if n = 0 then Inr (0, 0)
      else if k \<le> n then
        Inr (real k / real n,
             Z95 * sqrt (real k / real n * (1 - real k / real n) / real n))
      else Inl ValueError)"
proof (cases "n = 0")
  case True
  then show ?thesis by (simp add: estimate_def proportion_eq margin_eq)
next
  case False
  then show ?thesis
    using ratio_neg_iff[OF False, of k]
    by (simp add: estimate_def proportion_eq margin_eq not_less[symmetric])
qed

text \<open>
  C7. For every count \<open>k\<close> and base \<open>n\<close> the proportion is \<open>k / n\<close>, and 0 for \<open>n = 0\<close>;
  the margin of error is 0 for \<open>n = 0\<close> and \<open>1.96 * sqrt (p * (1 - p) / n)\<close> otherwise
  (for a count above the base the square root raises a value error); nothing here ever
  raises a division by zero, and \<open>k = 0\<close>, \<open>n = 10\<close> give \<open>p = 0\<close> and a margin of 0.
\<close>

theorem proportion_margin_zero_guarded:
  "proportion k n = Inr (if n = 0 then 0 else real k / real n) \<and>
   margin p 0 = Inr 0 \<and>
   margin p n \<noteq> Inl ZeroDivisionError \<and>
   estimate k n =
     (if n = 0 then Inr (0, 0)
      else if k \<le> n then
        Inr (real k / real n,
             (196 / 100) * sqrt (real k / real n * (1 - real k / real n) / real n))
      else Inl ValueError) \<and>
   estimate k n \<noteq> Inl ZeroDivisionError \<and>
   estimate 0 10 = Inr (0, 0)"
proof (intro conjI)
  show "proportion k n = Inr (if n = 0 then 0 else real k / real n)"
    by (rule proportion_eq)
  show "margin p 0 = Inr 0" by (simp add: margin_eq)
  show "margin p n \<noteq> Inl ZeroDivisionError" by (simp add: margin_eq)
  show "estimate k n =
     (if n = 0 then Inr (0, 0)
      else if k \<le> n then
        Inr (real k / real n,
             (196 / 100) * sqrt (real k / real n * (1 - real k / real n) / real n))
      else Inl ValueError)"
    using estimate_eq[of k n] by (simp only: Z95_def)
  show "estimate k n \<noteq> Inl ZeroDivisionError" by (simp add: estimate_eq)
  show "estimate 0 10 = Inr (0, 0)" by (simp add: estimate_eq)
qed


subsection \<open>The ratio estimator\<close>

lemma ratio_stats_Inr:
  "\<exists>moe_p. ratio_stats z n count = Inr (if n = 0 then 0 else real count / real n, moe_p)"
proof (cases "n = 0")
  case True
  then show ?thesis by (simp add: ratio_stats_def)
next
  case False
  define p where "p = real count / real n"
  have p0: "0 \<le> p" by (simp add: p_def)
  have pd: "py_truediv (real count) (real n) = Inr p"
    using False by (simp add: py_truediv_def p_def)
  consider "0 < p \<and> p < 1" | "p = 0 \<or> p = 1" | "1 < p" using p0 by fastforce
  then show ?thesis
  proof cases
    case 1
    then have "\<not> p * (1 - p) < 0" using prod_neg_iff[OF p0] by simp
    then have "moe_expr z p n = Inr (z * sqrt (p * (1 - p) / real n))"
      using False by (simp add: moe_expr_eq)
    with 1 False pd show ?thesis by (simp add: ratio_stats_def p_def)
  next
    case 2
    then have "\<not> p * (1 - p) < 0" by auto
    then have "moe_expr z p n = Inr (z * sqrt (p * (1 - p) / real n))"
      using False by (simp add: moe_expr_eq)
    with 2 False pd show ?thesis by (auto simp: ratio_stats_def p_def)
  next
    case 3
    with False pd show ?thesis by (simp add: ratio_stats_def p_def)
  qed
qed

lemma rel_err_sq_eq: "rel_err_sq p moe_p = Inr (spec_rel_err_sq p moe_p)"
  by (simp add: rel_err_sq_def spec_rel_err_sq_def py_truediv_def)

lemma spec_rel_err_sq_nonneg: "0 \<le> spec_rel_err_sq p moe_p"
  by (simp add: spec_rel_err_sq_def)

lemma ratio_with_moe_zero:
  "ratio_with_moe 0 moe_p_uk p_foreign moe_p_foreign = Inl ZeroDivisionError"
  by (simp add: ratio_with_moe_def py_truediv_def)

lemma ratio_with_moe_eq:
  assumes "p_uk \<noteq> 0"
  shows "ratio_with_moe p_uk moe_p_uk p_foreign moe_p_foreign =
     Inr (p_foreign / p_uk,
          spec_moe_ratio (p_foreign / p_uk)
            (spec_rel_err_sq p_foreign moe_p_foreign) (spec_rel_err_sq p_uk moe_p_uk))"
proof -
  define tf where "tf = spec_rel_err_sq p_foreign moe_p_foreign"
  define tu where "tu = spec_rel_err_sq p_uk moe_p_uk"
  have nn: "0 \<le> tf" "0 \<le> tu" by (simp_all add: tf_def tu_def spec_rel_err_sq_nonneg)
  then have s: "math_sqrt (tf + tu) = Inr (sqrt (tf + tu))" by (simp add: math_sqrt_def)
  have pos: "(0 < tf \<or> 0 < tu) \<longleftrightarrow> \<not> (tf = 0 \<and> tu = 0)" using nn by auto
  have d: "py_truediv p_foreign p_uk = Inr (p_foreign / p_uk)"
    using assms by (simp add: py_truediv_def)
  show ?thesis
    unfolding ratio_with_moe_def d rel_err_sq_eq tf_def[symmetric] tu_def[symmetric]
    using s pos by (auto simp: spec_moe_ratio_def)
qed

lemma ratio_zero_iff:
  "(if n = 0 then 0 else real count / real n) = 0 \<longleftrightarrow> n = 0 \<or> count = 0"
  by simp

lemma calculate_ratio_cases:
  obtains moe_uk moe_f where
    "calculate_and_print_default_address_ratio c m z =
       ratio_with_moe
         (if with_uk c = 0 then 0 else real (default_address (m G_with_uk)) / real (with_uk c))
         moe_uk
         (if without_uk c = 0 then 0
          else real (default_address (m G_without_uk)) / real (without_uk c))
         moe_f"
    "ratio_stats z (with_uk c) (default_address (m G_with_uk)) =
       Inr (if with_uk c = 0 then 0
            else real (default_address (m G_with_uk)) / real (with_uk c), moe_uk)"
    "ratio_stats z (without_uk c) (default_address (m G_without_uk)) =
       Inr (if without_uk c = 0 then 0
            else real (default_address (m G_without_uk)) / real (without_uk c), moe_f)"
proof -
  from ratio_stats_Inr[of z "with_uk c" "default_address (m G_with_uk)"]
  obtain moe_uk where a: "ratio_stats z (with_uk c) (default_address (m G_with_uk)) =
       Inr (if with_uk c = 0 then 0
            else real (default_address (m G_with_uk)) / real (with_uk c), moe_uk)" by blast
  from ratio_stats_Inr[of z "without_uk c" "default_address (m G_without_uk)"]
  obtain moe_f where b: "ratio_stats z (without_uk c) (default_address (m G_without_uk)) =
       Inr (if without_uk c = 0 then 0
            else real (default_address (m G_without_uk)) / real (without_uk c), moe_f)" by blast
  have "calculate_and_print_default_address_ratio c m z =
       ratio_with_moe
         (if with_uk c = 0 then 0 else real (default_address (m G_with_uk)) / real (with_uk c))
         moe_uk
         (if without_uk c = 0 then 0
          else real (default_address (m G_without_uk)) / real (without_uk c))
         moe_f"
    unfolding calculate_and_print_default_address_ratio_def a b by simp
  with a b that show ?thesis by blast
qed

lemma calculate_ratio_raises_iff:
  "calculate_and_print_default_address_ratio c m z = Inl ZeroDivisionError \<longleftrightarrow>
     with_uk c = 0 \<or> default_address (m G_with_uk) = 0"
proof -
  obtain moe_uk moe_f where
    e: "calculate_and_print_default_address_ratio c m z =
       ratio_with_moe
         (if with_uk c = 0 then 0 else real (default_address (m G_with_uk)) / real (with_uk c))
         moe_uk
         (if without_uk c = 0 then 0
          else real (default_address (m G_without_uk)) / real (without_uk c))
         moe_f"
    by (rule calculate_ratio_cases)
  show ?thesis
  proof (cases "with_uk c = 0 \<or> default_address (m G_with_uk) = 0")
    case True
    then have "(if with_uk c = 0 then 0
                else real (default_address (m G_with_uk)) / real (with_uk c)) = 0"
      by auto
    with e True show ?thesis by (simp only: ratio_with_moe_zero simp_thms)
  next
    case False
    then have "(if with_uk c = 0 then 0
                else real (default_address (m G_with_uk)) / real (with_uk c)) \<noteq> 0"
      by auto
    from ratio_with_moe_eq[OF this] e False show ?thesis by simp
  qed
qed

lemma display_metric_zero: "display_metric 0 count out = Inr (out @ [(count, 0, 0)])"
  by (simp add: display_metric_def estimate_eq)

text \<open>
  C2. \<open>calculate_and_print_default_address_ratio\<close> raises a division by zero exactly
  when the \<open>with_uk\<close> group has a zero default-address proportion, that is, when it has
  no company or no default-address occurrence; it then returns no result. Under a zero
  denominator every other proportion and margin is 0: those of
  \<open>count_foreign_and_uk_directors\<close> and \<open>display_compliance_indicators\<close>, and the
  proportion and margin of either group inside the ratio estimator.
\<close>

theorem ratio_division_unguarded:
  "(calculate_and_print_default_address_ratio c m z = Inl ZeroDivisionError \<longleftrightarrow>
      with_uk c = 0 \<or> default_address (m G_with_uk) = 0) \<and>
   ratio_stats z 0 count = Inr (0, 0) \<and>
   proportion k 0 = Inr 0 \<and>
   margin p 0 = Inr 0 \<and>
   estimate k 0 = Inr (0, 0) \<and>
   display_metric 0 count out = Inr (out @ [(count, 0, 0)]) \<and>
   count_foreign_and_uk_directors [] uk = Inr (counts0, (0, 0), (0, 0))"
proof (intro conjI)
  show "calculate_and_print_default_address_ratio c m z = Inl ZeroDivisionError \<longleftrightarrow>
      with_uk c = 0 \<or> default_address (m G_with_uk) = 0"
    by (rule calculate_ratio_raises_iff)
  show "ratio_stats z 0 count = Inr (0, 0)" by (simp add: ratio_stats_def)
  show "proportion k 0 = Inr 0" by (simp add: proportion_eq)
  show "margin p 0 = Inr 0" by (simp add: margin_eq)
  show "estimate k 0 = Inr (0, 0)" by (simp add: estimate_eq)
  show "display_metric 0 count out = Inr (out @ [(count, 0, 0)])"
    by (rule display_metric_zero)
  show "count_foreign_and_uk_directors [] uk = Inr (counts0, (0, 0), (0, 0))"
    by (simp add: count_foreign_and_uk_directors_def count_companies_by_uk_director_status_def
        counts0_def estimate_eq)
qed


theorem ratio_division_unguarded_witness:
  "calculate_and_print_default_address_ratio counts_3_2 metrics_foreign_default Z95 =
     Inl ZeroDivisionError \<and>
   calculate_and_print_default_address_ratio counts0 metrics_foreign_default Z95 =
     Inl ZeroDivisionError"
proof -
  have h1: "with_uk counts_3_2 = 0 \<or> default_address (metrics_foreign_default G_with_uk) = 0"
    by (simp add: metrics_foreign_default_def metrics0_def)
  have h2: "with_uk counts0 = 0 \<or> default_address (metrics_foreign_default G_with_uk) = 0"
    by (simp add: counts0_def)
  from ratio_division_unguarded[of counts_3_2 metrics_foreign_default Z95] h1
  have a: "calculate_and_print_default_address_ratio counts_3_2 metrics_foreign_default Z95 =
     Inl ZeroDivisionError" by blast
  from ratio_division_unguarded[of counts0 metrics_foreign_default Z95] h2
  have b: "calculate_and_print_default_address_ratio counts0 metrics_foreign_default Z95 =
     Inl ZeroDivisionError" by blast
  from a b show ?thesis by (intro conjI)
qed

text \<open>
  C9. In the ratio estimator the relative error squared of a side is \<open>(moe_p / p)\<^sup>2\<close>
  when \<open>p > 0\<close> and \<open>moe_p > 0\<close>, and 0 otherwise. When the division by the UK proportion
  does not raise, the ratio is \<open>p_foreign / p_uk\<close> and its margin is
  \<open>\<bar>ratio\<bar> * sqrt\<close> of the sum of the two terms, and 0 when the ratio is 0 or both terms
  are 0; this is what \<open>calculate_and_print_default_address_ratio\<close> prints for the two
  groups' proportions and margins.
\<close>

theorem ratio_margin_in_quadrature:
  "rel_err_sq p moe_p = Inr (if p > 0 \<and> moe_p > 0 then (moe_p / p)\<^sup>2 else 0) \<and>
   (p_uk \<noteq> 0 \<longrightarrow>
      ratio_with_moe p_uk moe_p_uk p_foreign moe_p_foreign =
        Inr (p_foreign / p_uk,
             spec_moe_ratio (p_foreign / p_uk)
               (spec_rel_err_sq p_foreign moe_p_foreign) (spec_rel_err_sq p_uk moe_p_uk))) \<and>
   (with_uk c \<noteq> 0 \<and> default_address (m G_with_uk) \<noteq> 0 \<longrightarrow>
      (\<exists>q_uk moe_uk q_f moe_f.
         ratio_stats z (with_uk c) (default_address (m G_with_uk)) = Inr (q_uk, moe_uk) \<and>
         ratio_stats z (without_uk c) (default_address (m G_without_uk)) = Inr (q_f, moe_f) \<and>
         calculate_and_print_default_address_ratio c m z =
           Inr (q_f / q_uk,
                spec_moe_ratio (q_f / q_uk)
                  (spec_rel_err_sq q_f moe_f) (spec_rel_err_sq q_uk moe_uk))))"
proof (intro conjI impI)
  show "rel_err_sq p moe_p = Inr (if p > 0 \<and> moe_p > 0 then (moe_p / p)\<^sup>2 else 0)"
    using rel_err_sq_eq[of p moe_p] by (simp only: spec_rel_err_sq_def)
next
  assume "p_uk \<noteq> 0"
  then show "ratio_with_moe p_uk moe_p_uk p_foreign moe_p_foreign =
        Inr (p_foreign / p_uk,
             spec_moe_ratio (p_foreign / p_uk)
               (spec_rel_err_sq p_foreign moe_p_foreign) (spec_rel_err_sq p_uk moe_p_uk))"
    by (rule ratio_with_moe_eq)
next
  assume nz: "with_uk c \<noteq> 0 \<and> default_address (m G_with_uk) \<noteq> 0"
  define q_uk where
    "q_uk = (if with_uk c = 0 then 0
             else real (default_address (m G_with_uk)) / real (with_uk c))"
  define q_f where
    "q_f = (if without_uk c = 0 then 0
            else real (default_address (m G_without_uk)) / real (without_uk c))"
  obtain moe_uk moe_f where
    e: "calculate_and_print_default_address_ratio c m z = ratio_with_moe q_uk moe_uk q_f moe_f"
    and a: "ratio_stats z (with_uk c) (default_address (m G_with_uk)) = Inr (q_uk, moe_uk)"
    and b: "ratio_stats z (without_uk c) (default_address (m G_without_uk)) = Inr (q_f, moe_f)"
    unfolding q_uk_def q_f_def by (rule calculate_ratio_cases)
  from nz have "q_uk \<noteq> 0" by (simp add: q_uk_def)
  from ratio_with_moe_eq[OF this] e
  have "calculate_and_print_default_address_ratio c m z =
           Inr (q_f / q_uk,
                spec_moe_ratio (q_f / q_uk)
                  (spec_rel_err_sq q_f moe_f) (spec_rel_err_sq q_uk moe_uk))"
    by simp
  with a b show "\<exists>q_uk moe_uk q_f moe_f.
         ratio_stats z (with_uk c) (default_address (m G_with_uk)) = Inr (q_uk, moe_uk) \<and>
         ratio_stats z (without_uk c) (default_address (m G_without_uk)) = Inr (q_f, moe_f) \<and>
         calculate_and_print_default_address_ratio c m z =
           Inr (q_f / q_uk,
                spec_moe_ratio (q_f / q_uk)
                  (spec_rel_err_sq q_f moe_f) (spec_rel_err_sq q_uk moe_uk))"
    by blast
qed


theorem ratio_margin_in_quadrature_witness:
  "ratio_with_moe (1 / 4) (1 / 20) (1 / 2) (1 / 20) = Inr (2, 2 * sqrt (1 / 20)) \<and>
   (\<exists>moe_ratio. calculate_and_print_default_address_ratio counts_4_2 metrics_one_each Z95 =
      Inr (2, moe_ratio))"
proof -
  have h1: "(1 / 4 :: real) \<noteq> 0" by simp
  have h2: "with_uk counts_4_2 \<noteq> 0 \<and> default_address (metrics_one_each G_with_uk) \<noteq> 0"
    by (simp add: counts_4_2_def metrics_one_each_def)
  note a = ratio_margin_in_quadrature[of 0 0 "1 / 4" "1 / 20" "1 / 2" "1 / 20"
      counts_4_2 metrics_one_each Z95]
  from a h1 have r: "ratio_with_moe (1 / 4) (1 / 20) (1 / 2) (1 / 20) =
      Inr ((1 / 2) / (1 / 4),
           spec_moe_ratio ((1 / 2) / (1 / 4))
             (spec_rel_err_sq (1 / 2) (1 / 20)) (spec_rel_err_sq (1 / 4) (1 / 20)))"
    by blast
  have t1: "spec_rel_err_sq (1 / 2) (1 / 20) = 1 / 100"
    by (simp add: spec_rel_err_sq_def power2_eq_square)
  have t2: "spec_rel_err_sq (1 / 4) (1 / 20) = 1 / 25"
    by (simp add: spec_rel_err_sq_def power2_eq_square)
  have t3: "spec_moe_ratio 2 (1 / 100) (1 / 25) = 2 * sqrt (1 / 20)"
    by (simp add: spec_moe_ratio_def)
  have c1: "ratio_with_moe (1 / 4) (1 / 20) (1 / 2) (1 / 20) = Inr (2, 2 * sqrt (1 / 20))"
    using r t1 t2 t3 by simp
  from a h2 obtain q_uk moe_uk q_f moe_f where
    s1: "ratio_stats Z95 (with_uk counts_4_2) (default_address (metrics_one_each G_with_uk)) =
           Inr (q_uk, moe_uk)"
    and s2: "ratio_stats Z95 (without_uk counts_4_2)
               (default_address (metrics_one_each G_without_uk)) = Inr (q_f, moe_f)"
    and e: "calculate_and_print_default_address_ratio counts_4_2 metrics_one_each Z95 =
           Inr (q_f / q_uk,
                spec_moe_ratio (q_f / q_uk)
                  (spec_rel_err_sq q_f moe_f) (spec_rel_err_sq q_uk moe_uk))"
    by blast
  from s1 ratio_stats_Inr[of Z95 "with_uk counts_4_2"
      "default_address (metrics_one_each G_with_uk)"]
  have q1: "q_uk = 1 / 4" by (auto simp: counts_4_2_def metrics_one_each_def)
  from s2 ratio_stats_Inr[of Z95 "without_uk counts_4_2"
      "default_address (metrics_one_each G_without_uk)"]
  have q2: "q_f = 1 / 2" by (auto simp: counts_4_2_def metrics_one_each_def)
  from e q1 q2 have c2: "\<exists>moe_ratio.
      calculate_and_print_default_address_ratio counts_4_2 metrics_one_each Z95 =
      Inr (2, moe_ratio)"
    by simp
  from c1 c2 show ?thesis by (intro conjI)
qed


subsection \<open>Late filings\<close>

lemma inc_default_address_late:
  "late_confstmt (inc_default_address g m g') = late_confstmt (m g') \<and>
   late_accounts (inc_default_address g m g') = late_accounts (m g')"
  by (simp add: inc_default_address_def)

lemma scan_values_late:
  "late_confstmt (scan_values g vals m g') = late_confstmt (m g') \<and>
   late_accounts (scan_values g vals m g') = late_accounts (m g')"
  by (induction vals) (simp_all add: inc_default_address_late)

lemma scan_director_late:
  assumes "scan_director g officer m = Inr m'"
  shows "late_confstmt (m' g') = late_confstmt (m g') \<and>
         late_accounts (m' g') = late_accounts (m g')"
  using assms scan_values_late
  by (auto simp: scan_director_def split: sum.splits)

lemma scan_directors_late:
  assumes "for_loop (scan_director g) ds m = Inr m'"
  shows "late_confstmt (m' g') = late_confstmt (m g') \<and>
         late_accounts (m' g') = late_accounts (m g')"
proof (rule for_loop_invariant[OF assms,
      where P = "\<lambda>x. late_confstmt (x g') = late_confstmt (m g') \<and>
                     late_accounts (x g') = late_accounts (m g')"])
  show "late_confstmt (m g') = late_confstmt (m g') \<and> late_accounts (m g') = late_accounts (m g')"
    by simp
next
  fix x s s'
  assume "late_confstmt (s g') = late_confstmt (m g') \<and> late_accounts (s g') = late_accounts (m g')"
    and "scan_director g x s = Inr s'"
  then show "late_confstmt (s' g') = late_confstmt (m g') \<and>
             late_accounts (s' g') = late_accounts (m g')"
    using scan_director_late[of g x s s' g'] by simp
qed

lemma late_check_confstmt:
  "late_confstmt (late_check today (strip field) (inc_late_confstmt g) m g') =
     late_confstmt (m g') + (if g' = g \<and> parses_before today field then 1 else 0) \<and>
   late_accounts (late_check today (strip field) (inc_late_confstmt g) m g') =
     late_accounts (m g')"
  by (simp add: late_check_def parses_before_def inc_late_confstmt_def split: sum.splits)

lemma late_check_accounts:
  "late_accounts (late_check today (strip field) (inc_late_accounts g) m g') =
     late_accounts (m g') + (if g' = g \<and> parses_before today field then 1 else 0) \<and>
   late_confstmt (late_check today (strip field) (inc_late_accounts g) m g') =
     late_confstmt (m g')"
  by (simp add: late_check_def parses_before_def inc_late_accounts_def split: sum.splits)

lemma analyze_company_late:
  assumes "analyze_company today uk info m = Inr m'"
  shows "\<exists>has_uk. find_uk_director uk (directors info) = Inr has_uk \<and>
     (\<forall>g. late_confstmt (m' g) = late_confstmt (m g) +
             (if g = group_of has_uk \<and>
                 parses_before today (data_get (company_data info) ''ConfStmtNextDueDate'')
              then 1 else 0) \<and>
          late_accounts (m' g) = late_accounts (m g) +
             (if g = group_of has_uk \<and>
                 parses_before today (data_get (company_data info) ''Accounts.NextDueDate'')
              then 1 else 0))"
proof -
  from assms obtain has_uk where f: "find_uk_director uk (directors info) = Inr has_uk"
    by (auto simp: analyze_company_def split: sum.splits)
  define g0 where "g0 = group_of has_uk"
  define m1 where "m1 = late_check today
      (strip (data_get (company_data info) ''ConfStmtNextDueDate'')) (inc_late_confstmt g0) m"
  define m2 where "m2 = late_check today
      (strip (data_get (company_data info) ''Accounts.NextDueDate'')) (inc_late_accounts g0) m1"
  have r: "m' = inc_default_address g0 m2 \<or> for_loop (scan_director g0) (directors info) m2 = Inr m'"
    using assms f
    by (auto simp: analyze_company_def Let_def m1_def m2_def g0_def group_of_def
        split: if_splits)
  have keep: "late_confstmt (m' g) = late_confstmt (m2 g) \<and>
              late_accounts (m' g) = late_accounts (m2 g)" for g
    using r inc_default_address_late[of g0 m2 g] scan_directors_late[of g0 "directors info" m2 m' g]
    by auto
  have "late_confstmt (m' g) = late_confstmt (m g) +
             (if g = g0 \<and>
                 parses_before today (data_get (company_data info) ''ConfStmtNextDueDate'')
              then 1 else 0) \<and>
          late_accounts (m' g) = late_accounts (m g) +
             (if g = g0 \<and>
                 parses_before today (data_get (company_data info) ''Accounts.NextDueDate'')
              then 1 else 0)" for g
    using keep[of g]
      late_check_accounts[of today "data_get (company_data info) ''Accounts.NextDueDate''" g0 m1 g]
      late_check_confstmt[of today "data_get (company_data info) ''ConfStmtNextDueDate''" g0 m g]
    unfolding m1_def[symmetric] m2_def[symmetric] by simp
  with f show ?thesis unfolding g0_def by blast
qed

lemma find_uk_director_total:
  "list_all director_record ds \<Longrightarrow> \<exists>b. find_uk_director uk ds = Inr b"
proof (induction ds)
  case Nil
  then show ?case by auto
next
  case (Cons x ds)
  then have x: "director_record x" and ih: "\<exists>b. find_uk_director uk ds = Inr b" by simp_all
  from director_record_resolve[OF x] obtain r where
    r: "resolve_country x = Inr r" and rt: "r = JNull \<or> (\<exists>s. r = JStr s)" by blast
  from director_record_address[OF x] obtain a where
    a: "address_country_of x = Inr a" and at: "a = JNull \<or> (\<exists>s. a = JStr s)" by blast
  from in_uk_typed[OF rt] obtain b1 where b1: "in_uk uk r = Inr b1" by blast
  from in_uk_typed[OF at] obtain b2 where b2: "in_uk uk a = Inr b2" by blast
  from ih show ?case by (auto simp: r a b1 b2)
qed

lemma scan_director_total:
  assumes "director_record officer"
  shows "\<exists>m'. scan_director g officer m = Inr m'"
proof -
  from assms obtain kvs where o: "officer = JObj kvs"
    and a: "case map_of kvs ''address'' of None \<Rightarrow> True
            | Some (JObj a) \<Rightarrow> opt_str (map_of a ''country'') | Some _ \<Rightarrow> False"
    by (auto simp: director_record_def split: json.splits)
  show ?thesis
  proof (cases "map_of kvs ''address''")
    case None
    then show ?thesis unfolding o scan_director_def by simp
  next
    case (Some v)
    with a obtain ad where v: "v = JObj ad" by (auto split: json.splits)
    show ?thesis unfolding o scan_director_def using Some v by simp
  qed
qed

lemma analyze_company_total:
  assumes "list_all director_record (directors info)"
  shows "\<exists>m'. analyze_company today uk info m = Inr m'"
proof -
  from find_uk_director_total[OF assms] obtain b where
    b: "find_uk_director uk (directors info) = Inr b" by blast
  have "\<exists>m'. for_loop (scan_director g) (directors info) m0 = Inr m'" for g m0
    using assms by (intro for_loop_total scan_director_total) (simp add: list_all_iff)
  then show ?thesis by (simp add: analyze_company_def b Let_def)
qed

lemma late_in_group_iff:
  assumes "find_uk_director uk (directors info) = Inr has_uk"
  shows "late_in_group today uk key g info \<longleftrightarrow>
         g = group_of has_uk \<and> parses_before today (data_get (company_data info) key)"
  using assms by (cases g; cases has_uk) (simp_all add: late_in_group_def group_of_def)

lemma analyze_companies_late:
  "for_loop (analyze_company today uk) cs m = Inr m' \<Longrightarrow>
     late_confstmt (m' g) = late_confstmt (m g) +
       length (filter (late_in_group today uk ''ConfStmtNextDueDate'' g) cs) \<and>
     late_accounts (m' g) = late_accounts (m g) +
       length (filter (late_in_group today uk ''Accounts.NextDueDate'' g) cs)"
proof (induction cs arbitrary: m)
  case Nil
  then show ?case by simp
next
  case (Cons info cs)
  from Cons.prems obtain m1 where a: "analyze_company today uk info m = Inr m1"
    and b: "for_loop (analyze_company today uk) cs m1 = Inr m'"
    by (auto split: sum.splits)
  from analyze_company_late[OF a] obtain has_uk where
    f: "find_uk_director uk (directors info) = Inr has_uk"
    and c: "late_confstmt (m1 g) = late_confstmt (m g) +
             (if g = group_of has_uk \<and>
                 parses_before today (data_get (company_data info) ''ConfStmtNextDueDate'')
              then 1 else 0)"
    and d: "late_accounts (m1 g) = late_accounts (m g) +
             (if g = group_of has_uk \<and>
                 parses_before today (data_get (company_data info) ''Accounts.NextDueDate'')
              then 1 else 0)"
    by blast
  from Cons.IH[OF b] c d show ?case
    by (simp add: late_in_group_iff[OF f])
qed

lemma analyze_compliance_total:
  assumes "company_records cs"
  shows "\<exists>m. analyze_compliance today cs uk = Inr m"
  unfolding analyze_compliance_def using assms
  by (intro for_loop_total analyze_company_total) (simp add: company_records_def list_all_iff)

text \<open>
  C5. When \<open>analyze_compliance\<close> gets through a company, \<open>late_confstmt\<close> of the
  company's group has grown by exactly 1 if the confirmation-statement due date parses as
  a day/month/year date strictly before the date of the run, and by 0 otherwise; the
  other group's counter is unchanged; the same holds of \<open>late_accounts\<close> and the accounts
  due date. So the counters \<open>analyze_compliance\<close> returns are, for each group, the
  number of the companies of the group whose field is late. A missing field and the text
  \<open>N/A\<close> do not parse, so they add nothing, and no due-date field makes the pass raise:
  it returns for every dataset of director records.
\<close>

theorem late_counters_follow_due_dates:
  "(analyze_company today uk info m = Inr m' \<longrightarrow>
      (\<exists>has_uk. find_uk_director uk (directors info) = Inr has_uk \<and>
         (\<forall>g. late_confstmt (m' g) = late_confstmt (m g) +
                 (if g = group_of has_uk \<and>
                     parses_before today (data_get (company_data info) ''ConfStmtNextDueDate'')
                  then 1 else 0) \<and>
              late_accounts (m' g) = late_accounts (m g) +
                 (if g = group_of has_uk \<and>
                     parses_before today (data_get (company_data info) ''Accounts.NextDueDate'')
                  then 1 else 0)))) \<and>
   (list_all director_record (directors info) \<longrightarrow>
      (\<exists>m1. analyze_company today uk info m = Inr m1)) \<and>
   (analyze_compliance today cs uk = Inr result \<longrightarrow>
      (\<forall>g. late_confstmt (result g) =
              length (filter (late_in_group today uk ''ConfStmtNextDueDate'' g) cs) \<and>
           late_accounts (result g) =
              length (filter (late_in_group today uk ''Accounts.NextDueDate'' g) cs))) \<and>
   (company_records cs \<longrightarrow> (\<exists>result. analyze_compliance today cs uk = Inr result)) \<and>
   \<not> parses_before today ''N/A'' \<and>
   \<not> parses_before today (data_get [] ''ConfStmtNextDueDate'')"
proof (intro conjI impI)
  assume "analyze_company today uk info m = Inr m'"
  then show "\<exists>has_uk. find_uk_director uk (directors info) = Inr has_uk \<and>
         (\<forall>g. late_confstmt (m' g) = late_confstmt (m g) +
                 (if g = group_of has_uk \<and>
                     parses_before today (data_get (company_data info) ''ConfStmtNextDueDate'')
                  then 1 else 0) \<and>
              late_accounts (m' g) = late_accounts (m g) +
                 (if g = group_of has_uk \<and>
                     parses_before today (data_get (company_data info) ''Accounts.NextDueDate'')
                  then 1 else 0))"
    by (rule analyze_company_late)
next
  assume "list_all director_record (directors info)"
  then show "\<exists>m1. analyze_company today uk info m = Inr m1"
    by (rule analyze_company_total)
next
  assume "analyze_compliance today cs uk = Inr result"
  then have "for_loop (analyze_company today uk) cs metrics0 = Inr result"
    by (simp only: analyze_compliance_def)
  from analyze_companies_late[OF this]
  show "\<forall>g. late_confstmt (result g) =
              length (filter (late_in_group today uk ''ConfStmtNextDueDate'' g) cs) \<and>
           late_accounts (result g) =
              length (filter (late_in_group today uk ''Accounts.NextDueDate'' g) cs)"
    by (simp add: metrics0_def)
next
  assume "company_records cs"
  then show "\<exists>result. analyze_compliance today cs uk = Inr result"
    by (rule analyze_compliance_total)
next
  have "strptime_dmy (strip ''N/A'') = Inl ValueError" by code_simp
  then show "\<not> parses_before today ''N/A''" by (simp add: parses_before_def)
next
  have "strptime_dmy (strip (data_get [] ''ConfStmtNextDueDate'')) = Inl ValueError"
    by code_simp
  then show "\<not> parses_before today (data_get [] ''ConfStmtNextDueDate'')"
    by (simp add: parses_before_def)
qed

theorem late_counters_follow_due_dates_witness:
  "list_all director_record (directors co_a) \<and>
   company_records [co_a, co_b, co_c, co_d] \<and>
   parses_before run_date ''01/01/2000'' \<and>
   \<not> parses_before run_date ''01/01/2099'' \<and>
   (\<exists>m'. analyze_company run_date (load_UK_variants uk_lines) co_a metrics0 = Inr m' \<and>
         late_confstmt (m' G_with_uk) = 1 \<and> late_confstmt (m' G_without_uk) = 0 \<and>
         late_accounts (m' G_with_uk) = 0 \<and> late_accounts (m' G_without_uk) = 0) \<and>
   (\<exists>result. analyze_compliance run_date [co_a, co_b, co_c, co_d] (load_UK_variants uk_lines) =
           Inr result \<and>
         late_confstmt (result G_with_uk) = 1 \<and> late_confstmt (result G_without_uk) = 0 \<and>
         late_accounts (result G_with_uk) = 0 \<and> late_accounts (result G_without_uk) = 1)"
proof -
  have h2: "list_all director_record (directors co_a)" by code_simp
  have h3: "company_records [co_a, co_b, co_c, co_d]" by code_simp
  have p1: "parses_before run_date ''01/01/2000''" by code_simp
  have p2: "\<not> parses_before run_date ''01/01/2099''" by code_simp
  have f: "find_uk_director (load_UK_variants uk_lines) (directors co_a) = Inr True"
    by code_simp
  have d1: "parses_before run_date (data_get (company_data co_a) ''ConfStmtNextDueDate'')"
    by code_simp
  have d2: "\<not> parses_before run_date (data_get (company_data co_a) ''Accounts.NextDueDate'')"
    by code_simp
  note a = late_counters_follow_due_dates[of run_date "load_UK_variants uk_lines" co_a metrics0
      _ "[co_a, co_b, co_c, co_d]"]
  from a h2 obtain m' where
    h1: "analyze_company run_date (load_UK_variants uk_lines) co_a metrics0 = Inr m'"
    by blast
  from a[of m'] h1 obtain has_uk where
    g: "find_uk_director (load_UK_variants uk_lines) (directors co_a) = Inr has_uk"
    and c: "\<forall>g. late_confstmt (m' g) = late_confstmt (metrics0 g) +
                 (if g = group_of has_uk \<and>
                     parses_before run_date (data_get (company_data co_a) ''ConfStmtNextDueDate'')
                  then 1 else 0) \<and>
              late_accounts (m' g) = late_accounts (metrics0 g) +
                 (if g = group_of has_uk \<and>
                     parses_before run_date (data_get (company_data co_a) ''Accounts.NextDueDate'')
                  then 1 else 0)"
    by blast
  from f g have hu: "has_uk" by simp
  from c[rule_format, of G_with_uk] c[rule_format, of G_without_uk] hu d1 d2
  have one: "late_confstmt (m' G_with_uk) = 1 \<and> late_confstmt (m' G_without_uk) = 0 \<and>
         late_accounts (m' G_with_uk) = 0 \<and> late_accounts (m' G_without_uk) = 0"
    by (simp add: group_of_def metrics0_def)
  from a h3 obtain result where
    r: "analyze_compliance run_date [co_a, co_b, co_c, co_d] (load_UK_variants uk_lines) =
          Inr result"
    by blast
  from a[of _ result] r have
    w: "\<forall>g. late_confstmt (result g) =
              length (filter (late_in_group run_date (load_UK_variants uk_lines)
                                ''ConfStmtNextDueDate'' g) [co_a, co_b, co_c, co_d]) \<and>
           late_accounts (result g) =
              length (filter (late_in_group run_date (load_UK_variants uk_lines)
                                ''Accounts.NextDueDate'' g) [co_a, co_b, co_c, co_d])"
    by blast
  have l1: "length (filter (late_in_group run_date (load_UK_variants uk_lines)
              ''ConfStmtNextDueDate'' G_with_uk) [co_a, co_b, co_c, co_d]) = 1" by code_simp
  have l2: "length (filter (late_in_group run_date (load_UK_variants uk_lines)
              ''ConfStmtNextDueDate'' G_without_uk) [co_a, co_b, co_c, co_d]) = 0" by code_simp
  have l3: "length (filter (late_in_group run_date (load_UK_variants uk_lines)
              ''Accounts.NextDueDate'' G_with_uk) [co_a, co_b, co_c, co_d]) = 0" by code_simp
  have l4: "length (filter (late_in_group run_date (load_UK_variants uk_lines)
              ''Accounts.NextDueDate'' G_without_uk) [co_a, co_b, co_c, co_d]) = 1" by code_simp
  from w[rule_format, of G_with_uk] w[rule_format, of G_without_uk] l1 l2 l3 l4
  have all: "late_confstmt (result G_with_uk) = 1 \<and> late_confstmt (result G_without_uk) = 0 \<and>
         late_accounts (result G_with_uk) = 0 \<and> late_accounts (result G_without_uk) = 1"
    by (simp only: simp_thms)
  from h1 h2 h3 p1 p2 one r all show ?thesis by blast
qed

subsection \<open>The default-address flag\<close>

lemma inc_late_default:
  "default_address (inc_late_confstmt g m g') = default_address (m g') \<and>
   default_address (inc_late_accounts g m g') = default_address (m g')"
  by (simp add: inc_late_confstmt_def inc_late_accounts_def)

lemma late_check_default:
  "default_address (late_check today due (inc_late_confstmt g) m g') = default_address (m g') \<and>
   default_address (late_check today due (inc_late_accounts g) m g') = default_address (m g')"
  by (simp add: late_check_def inc_late_default split: sum.splits)

lemma scan_values_default:
  "default_address (scan_values g vals m g') =
     default_address (m g') + (if g' = g \<and> list_ex is_default_val vals then 1 else 0)"
  by (induction vals) (auto simp: inc_default_address_def)

lemma scan_director_default:
  assumes "scan_director g officer m = Inr m'"
  shows "default_address (m' g') =
           default_address (m g') + (if g' = g \<and> has_default_address officer then 1 else 0)"
proof -
  from assms obtain a vals where a: "py_get officer ''address'' (JObj []) = Inr a"
    and v: "py_values (if truthy a then a else JObj []) = Inr vals"
    and m': "m' = scan_values g vals m"
    unfolding scan_director_def by (auto split: sum.splits)
  have "has_default_address officer = list_ex is_default_val vals"
    by (simp only: has_default_address_def a v sum.case)
  with m' scan_values_default[of g vals m g'] show ?thesis by simp
qed

lemma scan_directors_default:
  "for_loop (scan_director g) ds m = Inr m' \<Longrightarrow>
     default_address (m' g') =
       default_address (m g') + (if g' = g then length (filter has_default_address ds) else 0)"
proof (induction ds arbitrary: m)
  case Nil
  then show ?case by simp
next
  case (Cons x ds)
  from Cons.prems obtain m1 where a: "scan_director g x m = Inr m1"
    and b: "for_loop (scan_director g) ds m1 = Inr m'"
    by (auto split: sum.splits)
  from scan_director_default[OF a, of g'] Cons.IH[OF b] show ?case by simp
qed

text \<open>
  What one company adds to \<open>default_address\<close>: 1 when the registered address is flagged,
  and otherwise 1 for every director with a default address.
\<close>

lemma analyze_company_default:
  assumes "analyze_company today uk info m = Inr m'"
  shows "\<exists>has_uk. find_uk_director uk (directors info) = Inr has_uk \<and>
     (\<forall>g. default_address (m' g) = default_address (m g) +
        (if g \<noteq> group_of has_uk then 0
         else if registered_default info then 1
         else length (filter has_default_address (directors info))))"
proof -
  from assms obtain has_uk where f: "find_uk_director uk (directors info) = Inr has_uk"
    by (auto simp: analyze_company_def split: sum.splits)
  define g0 where "g0 = group_of has_uk"
  define m1 where "m1 = late_check today
      (strip (data_get (company_data info) ''ConfStmtNextDueDate'')) (inc_late_confstmt g0) m"
  define m2 where "m2 = late_check today
      (strip (data_get (company_data info) ''Accounts.NextDueDate'')) (inc_late_accounts g0) m1"
  have m2: "default_address (m2 g) = default_address (m g)" for g
    by (simp add: m2_def m1_def late_check_default)
  have r: "if registered_default info then m' = inc_default_address g0 m2
           else for_loop (scan_director g0) (directors info) m2 = Inr m'"
    using assms f
    by (auto simp: analyze_company_def Let_def m1_def m2_def g0_def group_of_def
        registered_default_def split: if_splits)
  have "default_address (m' g) = default_address (m g) +
        (if g \<noteq> g0 then 0
         else if registered_default info then 1
         else length (filter has_default_address (directors info)))" for g
  proof (cases "registered_default info")
    case True
    with r have "m' = inc_default_address g0 m2" by simp
    with True m2[of g] m2[of g0] show ?thesis by (simp add: inc_default_address_def)
  next
    case False
    with r have "for_loop (scan_director g0) (directors info) m2 = Inr m'" by simp
    from scan_directors_default[OF this, of g] False m2[of g] show ?thesis by simp
  qed
  with f show ?thesis unfolding g0_def by blast
qed

text \<open>
  C1, at a company with a clean registered address and two directors whose service
  address holds "3 Default address Road": the scan of the directors' addresses does not
  stop at the first such director, the company adds 2 to \<open>default_address\<close> of its group,
  and with this count above the number of companies of the group
  \<open>display_compliance_indicators\<close> raises a value error.
\<close>

theorem default_address_counted_per_director:
  "\<exists>c m. count_companies_by_uk_director_status [co_two_default] (load_UK_variants uk_lines) =
            Inr c \<and>
         analyze_compliance run_date [co_two_default] (load_UK_variants uk_lines) = Inr m \<and>
         without_uk c = 1 \<and>
         default_address (m G_without_uk) = 2 \<and>
         display_compliance_indicators c m = Inl ValueError"
proof -
  have c: "count_companies_by_uk_director_status [co_two_default] (load_UK_variants uk_lines) =
      Inr \<lparr>with_uk = 0, without_uk = 1, questionable_residence = 0,
           total_directors = 2, total_companies = 1\<rparr>"
    by code_simp
  have e: "case analyze_compliance run_date [co_two_default] (load_UK_variants uk_lines) of
             Inl e \<Rightarrow> False
           | Inr m \<Rightarrow>
               m G_with_uk = \<lparr>late_confstmt = 0, late_accounts = 0, default_address = 0\<rparr> \<and>
               m G_without_uk = \<lparr>late_confstmt = 0, late_accounts = 0, default_address = 2\<rparr>"
    by code_simp
  then obtain m where m: "analyze_compliance run_date [co_two_default] (load_UK_variants uk_lines) = Inr m"
    and m1: "m G_with_uk = \<lparr>late_confstmt = 0, late_accounts = 0, default_address = 0\<rparr>"
    and m2: "m G_without_uk = \<lparr>late_confstmt = 0, late_accounts = 0, default_address = 2\<rparr>"
    by (auto split: sum.splits)
  have d: "display_compliance_indicators
       \<lparr>with_uk = 0, without_uk = 1, questionable_residence = 0,
        total_directors = 2, total_companies = 1\<rparr> m = Inl ValueError"
    by (simp add: display_compliance_indicators_def display_group_def display_metric_def
        group_count_def estimate_eq m1 m2)
  from c m m2 d show ?thesis by simp
qed

subsection \<open>The two classifiers agree\<close>

lemma full_scan_has_uk_total:
  assumes "list_all director_record ds"
  shows "\<exists>h. full_scan_has_uk uk ds = Inr h"
proof -
  have "\<exists>st'. for_loop (count_director uk) ds (False, counts0) = Inr st'"
    using assms by (intro for_loop_total count_director_total) (simp add: list_all_iff)
  then show ?thesis by (auto simp: full_scan_has_uk_def split: prod.splits)
qed

text \<open>
  C3, as amended. For every list of directors and every UK variant set, an outcome of the
  full scan of \<open>count_companies_by_uk_director_status\<close> is the outcome of the
  short-circuit loop of \<open>analyze_compliance\<close>, and both loops return one for every list
  of director records. So, whenever the first pass returns its counts, the two passes
  give every company the same outcome, and \<open>with_uk\<close> and \<open>without_uk\<close> count the
  companies the second pass puts into each group; both passes return for every dataset
  of director records.
\<close>

theorem classifiers_agree:
  "(full_scan_has_uk uk ds = Inr h \<longrightarrow> find_uk_director uk ds = Inr h) \<and>
   (list_all director_record ds \<longrightarrow>
      (\<exists>h. full_scan_has_uk uk ds = Inr h \<and> find_uk_director uk ds = Inr h)) \<and>
   (count_companies_by_uk_director_status cs uk = Inr c \<longrightarrow>
      (\<forall>info \<in> set cs. \<exists>h. full_scan_has_uk uk (directors info) = Inr h \<and>
                             find_uk_director uk (directors info) = Inr h) \<and>
      with_uk c =
        length (filter (\<lambda>info. find_uk_director uk (directors info) = Inr True) cs) \<and>
      without_uk c =
        length (filter (\<lambda>info. find_uk_director uk (directors info) = Inr False) cs)) \<and>
   (company_records cs \<longrightarrow>
      (\<exists>c m. count_companies_by_uk_director_status cs uk = Inr c \<and>
             analyze_compliance today cs uk = Inr m))"
proof (intro conjI impI)
  assume "full_scan_has_uk uk ds = Inr h"
  then show "find_uk_director uk ds = Inr h" by (rule full_scan_has_uk_find)
next
  assume "list_all director_record ds"
  from full_scan_has_uk_total[OF this] obtain h where h: "full_scan_has_uk uk ds = Inr h"
    by blast
  with full_scan_has_uk_find[OF h]
  show "\<exists>h. full_scan_has_uk uk ds = Inr h \<and> find_uk_director uk ds = Inr h" by blast
next
  assume "count_companies_by_uk_director_status cs uk = Inr c"
  then obtain c1 where l: "for_loop (count_company uk) cs counts0 = Inr c1"
    and c: "c = c1\<lparr>total_companies := with_uk c1 + without_uk c1\<rparr>"
    by (auto simp: count_companies_by_uk_director_status_def split: sum.splits)
  note r = count_companies_find[OF l]
  from r show "\<forall>info \<in> set cs. \<exists>h. full_scan_has_uk uk (directors info) = Inr h \<and>
                             find_uk_director uk (directors info) = Inr h" by blast
  from r c show "with_uk c =
        length (filter (\<lambda>info. find_uk_director uk (directors info) = Inr True) cs)"
    by (simp add: counts0_def)
  from r c show "without_uk c =
        length (filter (\<lambda>info. find_uk_director uk (directors info) = Inr False) cs)"
    by (simp add: counts0_def)
next
  assume r: "company_records cs"
  from count_companies_total[OF r, of uk] analyze_compliance_total[OF r, of today uk]
  show "\<exists>c m. count_companies_by_uk_director_status cs uk = Inr c \<and>
             analyze_compliance today cs uk = Inr m" by blast
qed

theorem classifiers_agree_witness:
  "list_all director_record (directors co_a) \<and>
   company_records [co_a, co_b] \<and>
   full_scan_has_uk (load_UK_variants uk_lines) (directors co_a) = Inr True \<and>
   find_uk_director (load_UK_variants uk_lines) (directors co_a) = Inr True \<and>
   count_companies_by_uk_director_status [co_a, co_b] (load_UK_variants uk_lines) =
      Inr \<lparr>with_uk = 1, without_uk = 1, questionable_residence = 2,
           total_directors = 3, total_companies = 2\<rparr> \<and>
   (\<exists>m. analyze_compliance run_date [co_a, co_b] (load_UK_variants uk_lines) = Inr m) \<and>
   length (filter (\<lambda>info. find_uk_director (load_UK_variants uk_lines) (directors info) = Inr True)
             [co_a, co_b]) = 1 \<and>
   length (filter (\<lambda>info. find_uk_director (load_UK_variants uk_lines) (directors info) = Inr False)
             [co_a, co_b]) = 1"
proof -
  have r1: "list_all director_record (directors co_a)" by code_simp
  have r2: "company_records [co_a, co_b]" by code_simp
  have h1: "full_scan_has_uk (load_UK_variants uk_lines) (directors co_a) = Inr True"
    by code_simp
  have h2: "count_companies_by_uk_director_status [co_a, co_b] (load_UK_variants uk_lines) =
      Inr \<lparr>with_uk = 1, without_uk = 1, questionable_residence = 2,
           total_directors = 3, total_companies = 2\<rparr>"
    by code_simp
  note a = classifiers_agree[of "load_UK_variants uk_lines" "directors co_a" True "[co_a, co_b]"
      "\<lparr>with_uk = 1, without_uk = 1, questionable_residence = 2,
           total_directors = 3, total_companies = 2\<rparr>" run_date]
  from a h1 have f: "find_uk_director (load_UK_variants uk_lines) (directors co_a) = Inr True"
    by blast
  from a r1 have t: "\<exists>h. full_scan_has_uk (load_UK_variants uk_lines) (directors co_a) = Inr h \<and>
      find_uk_director (load_UK_variants uk_lines) (directors co_a) = Inr h"
    by blast
  from a r2 have m: "\<exists>m. analyze_compliance run_date [co_a, co_b] (load_UK_variants uk_lines) =
      Inr m"
    by blast
  from a h2 have w: "with_uk \<lparr>with_uk = 1, without_uk = 1, questionable_residence = 2,
           total_directors = 3, total_companies = 2\<rparr> =
      length (filter (\<lambda>info. find_uk_director (load_UK_variants uk_lines) (directors info) = Inr True)
             [co_a, co_b])"
    and wo: "without_uk \<lparr>with_uk = 1, without_uk = 1, questionable_residence = 2,
           total_directors = 3, total_companies = 2\<rparr> =
      length (filter (\<lambda>info. find_uk_director (load_UK_variants uk_lines) (directors info) = Inr False)
             [co_a, co_b])"
    by blast+
  from w[symmetric] have w': "length (filter (\<lambda>info.
      find_uk_director (load_UK_variants uk_lines) (directors info) = Inr True) [co_a, co_b]) = 1"
    by (simp only: counts.select_convs)
  from wo[symmetric] have wo': "length (filter (\<lambda>info.
      find_uk_director (load_UK_variants uk_lines) (directors info) = Inr False) [co_a, co_b]) = 1"
    by (simp only: counts.select_convs)
  from r1 r2 h1 f h2 m w' wo' show ?thesis by (intro conjI)
qed

text \<open>
  C3 as it was stated fails at a company whose first director is UK-qualifying and whose
  second director has a null address: the short-circuit loop leaves at the first director
  and returns has-UK, the full scan reads the second director and raises at
  \<open>officer.get('address', {}).get('country')\<close>, so the first pass gives the company no
  outcome while the second pass goes through.
\<close>

theorem classifiers_differ_on_unread_director:
  "find_uk_director (load_UK_variants uk_lines) (directors co_null) = Inr True \<and>
   full_scan_has_uk (load_UK_variants uk_lines) (directors co_null) = Inl AttributeError \<and>
   count_companies_by_uk_director_status [co_null] (load_UK_variants uk_lines) =
     Inl AttributeError \<and>
   \<not> isl (analyze_compliance run_date [co_null] (load_UK_variants uk_lines))"
proof (intro conjI)
  show "find_uk_director (load_UK_variants uk_lines) (directors co_null) = Inr True"
    by code_simp
  show "full_scan_has_uk (load_UK_variants uk_lines) (directors co_null) = Inl AttributeError"
    by code_simp
  show "count_companies_by_uk_director_status [co_null] (load_UK_variants uk_lines) =
     Inl AttributeError"
    by code_simp
  show "\<not> isl (analyze_compliance run_date [co_null] (load_UK_variants uk_lines))"
    by code_simp
qed

end
